(* ===== verification/Prelude.thy ===== *)
theory Prelude
  imports Main
begin

section \<open>Prelude: shared types, collections and generic lemmas\<close>

text \<open>
  What every component theory shares: the names of the model's types, the
  \<^theory_text>\<open>named_theorems\<close> collection that carries the component proofs, Go's zero-value map
  lookup, the best-effort loop that the reconcile code uses (call, log the error, go on), and
  the list and map lemmas that more than one component needs.
\<close>

type_synonym shard = int          \<comment> \<open>Go \<open>int\<close> shard slot\<close>
type_synonym term_no = int        \<comment> \<open>Go \<open>int64\<close> ownership term\<close>
type_synonym nodeid = string      \<comment> \<open>node id, which is also the node's gRPC address\<close>
type_synonym lease_id = int       \<comment> \<open>\<open>clientv3.LeaseID\<close>\<close>
type_synonym nanos = int          \<comment> \<open>\<open>time.Duration\<close> / unix nanoseconds\<close>

text \<open>\<open>go_control\<close>: sequencing of fallible calls (bindings, result pairs and error branches) as
  projections, so that the simplifier runs through a translated body.\<close>

named_theorems go_control

lemmas [go_control] = Let_def sum.case_eq_if case_prod_beta

subsection \<open>Go maps\<close>

text \<open>\<open>m[k]\<close> on a Go map: the stored value or the zero value of the element type.\<close>

definition map_get :: "'v \<Rightarrow> ('k \<rightharpoonup> 'v) \<Rightarrow> 'k \<Rightarrow> 'v" where
  "map_get zero m k = (case m k of None \<Rightarrow> zero | Some v \<Rightarrow> v)"

text \<open>A loop \<open>for k, v := range src { dst[k] = v }\<close> over the pairs in the order the runtime
  picks them.\<close>

definition map_copy :: "('k \<times> 'v) list \<Rightarrow> ('k \<rightharpoonup> 'v) \<Rightarrow> ('k \<rightharpoonup> 'v)" where
  "map_copy kvs dst = foldl (\<lambda>m (k, v). m(k \<mapsto> v)) dst kvs"

subsection \<open>Best-effort loops\<close>

text \<open>\<open>for _, x := range xs { if err := f(x); err != nil { log } }\<close>: every element is tried,
  an error is recorded with its element and the loop goes on.\<close>

fun for_each :: "('x \<Rightarrow> 's \<Rightarrow> ('e + 'r) \<times> 's) \<Rightarrow> 'x list \<Rightarrow> 's \<Rightarrow> 's \<times> ('x \<times> 'e) list" where
  "for_each f [] s = (s, [])"
| "for_each f (x # xs) s =
     (case f x s of (r, s1) \<Rightarrow>
        (case for_each f xs s1 of (s2, ws) \<Rightarrow>
           (s2, (case r of Inl e \<Rightarrow> (x, e) # ws | Inr _ \<Rightarrow> ws))))"

lemma map_get_simps [simp]:
  "m k = None \<Longrightarrow> map_get z m k = z"
  "m k = Some v \<Longrightarrow> map_get z m k = v"
  by (simp_all add: map_get_def)

lemma map_copy_Nil [simp]: "map_copy [] m = m"
  by (simp add: map_copy_def)

lemma map_copy_Cons [simp]: "map_copy ((k, v) # kvs) m = map_copy kvs (m(k \<mapsto> v))"
  by (simp add: map_copy_def)

lemma map_copy_map_of:
  "distinct (map fst kvs) \<Longrightarrow> map_copy kvs m = m ++ map_of kvs"
proof (induction kvs arbitrary: m)
  case Nil
  show ?case by simp
next
  case (Cons kv kvs)
  obtain k v where kv: "kv = (k, v)" by force
  have "map_of kvs k = None"
    using Cons.prems kv by (simp add: map_of_eq_None_iff)
  then have eq: "m(k \<mapsto> v) ++ map_of kvs = m ++ map_of (kv # kvs)"
    by (auto simp: kv fun_eq_iff map_add_def split: option.splits)
  have "map_copy (kv # kvs) m = map_copy kvs (m(k \<mapsto> v))" by (simp add: kv)
  also have "\<dots> = m(k \<mapsto> v) ++ map_of kvs" using Cons by simp
  finally show ?case by (simp only: eq)
qed

lemma map_copy_dom: "dom (map_copy kvs m) = dom m \<union> fst ` set kvs"
proof (induction kvs arbitrary: m)
  case Nil
  show ?case by simp
next
  case (Cons kv kvs)
  obtain k v where "kv = (k, v)" by force
  then have "dom (map_copy (kv # kvs) m) = dom (m(k \<mapsto> v)) \<union> fst ` set kvs"
    by (simp only: map_copy_Cons Cons.IH)
  then show ?case using \<open>kv = (k, v)\<close> by auto
qed

text \<open>A loop keeps what each call keeps, whether the call fails or not.\<close>

lemma for_each_inv:
  assumes "\<And>x s. x \<in> set xs \<Longrightarrow> P s \<Longrightarrow> P (snd (f x s))"
    and "P s"
  shows "P (fst (for_each f xs s))"
  using assms
proof (induction xs arbitrary: s)
  case Nil
  then show ?case by simp
next
  case (Cons x xs)
  have "P (snd (f x s))" using Cons.prems by simp
  then have "P (fst (for_each f xs (snd (f x s))))"
    using Cons.IH [of "snd (f x s)"] Cons.prems(1) by simp
  then show ?case by (simp add: case_prod_beta)
qed

text \<open>Every logged error belongs to an element of the loop.\<close>

lemma for_each_logged:
  "(x, e) \<in> set (snd (for_each f xs s)) \<Longrightarrow> x \<in> set xs"
proof (induction xs arbitrary: s)
  case Nil
  then show ?case by simp
next
  case (Cons y ys)
  then show ?case by (auto simp: case_prod_beta split: sum.splits)
qed

text \<open>A loop whose calls all succeed logs nothing.\<close>

lemma for_each_clean:
  assumes "\<And>x s. x \<in> set xs \<Longrightarrow> P s \<Longrightarrow> \<not> isl (fst (f x s)) \<and> P (snd (f x s))" and "P s"
  obtains s' where "for_each f xs s = (s', [])" "P s'"
  using assms
proof (induction xs arbitrary: s thesis)
  case Nil
  then show ?case by simp
next
  case (Cons x xs)
  obtain r s1 where x: "f x s = (r, s1)" by force
  have "\<not> isl (fst (f x s)) \<and> P (snd (f x s))" using Cons.prems by simp
  then have r: "\<not> isl r" and s1: "P s1" using x by simp_all
  have step: "\<not> isl (fst (f y t)) \<and> P (snd (f y t))" if "y \<in> set xs" "P t" for y t
    using Cons.prems(2) that by simp
  obtain s' where "for_each f xs s1 = (s', [])" "P s'" using Cons.IH [OF _ step s1] by blast
  then show ?case using Cons.prems(1) x r by (cases r) simp_all
qed

end
