(* ===== verification/GoStd.thy ===== *)
theory GoStd
  imports Prelude "HOL-Library.Word" "HOL-Library.Char_ord" "HOL-Library.List_Lexorder"
begin

section \<open>The Go standard library functions the program uses\<close>

text \<open>
  Packages \<open>strings\<close>, \<open>strconv\<close> and \<open>path\<close>, as far as the sources call them, over byte
  strings. \<open>strings\<close>: \<open>HasPrefix\<close>, \<open>TrimPrefix\<close>, \<open>Index\<close>. \<open>strconv\<close>: \<open>Itoa\<close> /
  \<open>FormatInt(_, 10)\<close> and \<open>Atoi\<close> / \<open>ParseInt(_, 10, 64)\<close>, with the sign, the empty-input and
  the 64-bit range checks. \<open>path\<close>: \<open>Join\<close> and the lexical \<open>Clean\<close> it ends with. Strings are
  byte strings and \<open><\<close> on them is the lexicographic byte order, as in Go.
  The lemmas show the round trip through decimal text, where \<open>Index\<close> finds its match, and that
  joining one more plain segment appends it, which is what makes etcd keys decodable.
\<close>

subsection \<open>Package strings\<close>

definition strings_HasPrefix :: "string \<Rightarrow> string \<Rightarrow> bool" where
  "strings_HasPrefix s p = (take (length p) s = p)"

definition strings_TrimPrefix :: "string \<Rightarrow> string \<Rightarrow> string" where
  "strings_TrimPrefix s p = (if strings_HasPrefix s p then drop (length p) s else s)"

text \<open>The index of the first occurrence; \<open>None\<close> is Go's \<open>-1\<close>.\<close>

fun strings_Index :: "string \<Rightarrow> string \<Rightarrow> nat option" where
  "strings_Index [] sep = (if sep = [] then Some 0 else None)"
| "strings_Index (c # s) sep =
     (if strings_HasPrefix (c # s) sep then Some 0
      else map_option Suc (strings_Index s sep))"

subsection \<open>Package strconv\<close>

definition digit_char :: "nat \<Rightarrow> char" where
  "digit_char d = char_of (48 + d)"

definition digit_val :: "char \<Rightarrow> nat" where
  "digit_val c = of_char c - 48"

definition is_digit :: "char \<Rightarrow> bool" where
  "is_digit c = (48 \<le> (of_char c :: nat) \<and> (of_char c :: nat) \<le> 57)"

fun nat_digits :: "nat \<Rightarrow> string" where
  "nat_digits n = (if n < 10 then [digit_char n] else nat_digits (n div 10) @ [digit_char (n mod 10)])"

declare nat_digits.simps [simp del]

definition strconv_Itoa :: "int \<Rightarrow> string" where
  "strconv_Itoa i = (if i < 0 then CHR ''-'' # nat_digits (nat (- i)) else nat_digits (nat i))"

abbreviation strconv_FormatInt :: "int \<Rightarrow> string" where
  "strconv_FormatInt \<equiv> strconv_Itoa"

definition digits_val :: "string \<Rightarrow> nat" where
  "digits_val s = foldl (\<lambda>a c. a * 10 + digit_val c) 0 s"

definition parse_unsigned :: "string \<Rightarrow> nat option" where
  "parse_unsigned s = (if s \<noteq> [] \<and> list_all is_digit s then Some (digits_val s) else None)"

definition int64_range :: "int \<Rightarrow> bool" where
  "int64_range i = (- (2 ^ 63) \<le> i \<and> i < 2 ^ 63)"

definition strip_sign :: "string \<Rightarrow> bool \<times> string" where
  "strip_sign s = (case s of [] \<Rightarrow> (False, s)
     | c # cs \<Rightarrow> if c = CHR ''-'' then (True, cs) else if c = CHR ''+'' then (False, cs) else (False, s))"

text \<open>\<open>None\<close> is the syntax or range error.\<close>

definition strconv_Atoi :: "string \<Rightarrow> int option" where
  "strconv_Atoi s =
     (case strip_sign s of (neg, ds) \<Rightarrow>
        (case parse_unsigned ds of None \<Rightarrow> None
         | Some n \<Rightarrow> (let i = (if neg then - int n else int n) in if int64_range i then Some i else None)))"

abbreviation strconv_ParseInt :: "string \<Rightarrow> int option" where
  "strconv_ParseInt \<equiv> strconv_Atoi"

subsection \<open>Package path\<close>

fun path_split :: "string \<Rightarrow> string list" where
  "path_split [] = [[]]"
| "path_split (c # s) =
     (if c = CHR ''/'' then [] # path_split s
      else (case path_split s of [] \<Rightarrow> [[c]] | seg # segs \<Rightarrow> (c # seg) # segs))"

fun path_concat :: "string list \<Rightarrow> string" where
  "path_concat [] = []"
| "path_concat [x] = x"
| "path_concat (x # y # ys) = x @ CHR ''/'' # path_concat (y # ys)"

text \<open>One segment of \<open>Clean\<close>: empty and \<open>.\<close> segments vanish, \<open>..\<close> cancels the segment before
  it, or vanishes at the root, or stays. The stack holds the segments kept so far, last first.\<close>

definition clean_step :: "bool \<Rightarrow> string list \<Rightarrow> string \<Rightarrow> string list" where
  "clean_step rooted st seg =
     (if seg = [] \<or> seg = ''.'' then st
      else if seg = ''..'' then
        (if st \<noteq> [] \<and> hd st \<noteq> ''..'' then tl st else if rooted then st else seg # st)
      else seg # st)"

definition path_stack :: "string \<Rightarrow> string list" where
  "path_stack s = foldl (clean_step (strings_HasPrefix s ''/'')) [] (path_split s)"

definition path_Clean :: "string \<Rightarrow> string" where
  "path_Clean s =
     (if s = [] then ''.''
      else if strings_HasPrefix s ''/'' then CHR ''/'' # path_concat (rev (path_stack s))
      else if path_stack s = [] then ''.''
      else path_concat (rev (path_stack s)))"

definition path_Join :: "string list \<Rightarrow> string" where
  "path_Join elem =
     (let es = filter (\<lambda>e. e \<noteq> []) elem in if es = [] then [] else path_Clean (path_concat es))"

text \<open>A plain segment: what \<open>Clean\<close> leaves as it is.\<close>

definition plain_segment :: "string \<Rightarrow> bool" where
  "plain_segment x = (x \<noteq> [] \<and> x \<noteq> ''.'' \<and> x \<noteq> ''..'' \<and> CHR ''/'' \<notin> set x)"

subsection \<open>strings: prefixes and first occurrences\<close>

lemma HasPrefix_iff: "strings_HasPrefix s p \<longleftrightarrow> (\<exists>r. s = p @ r)"
  unfolding strings_HasPrefix_def by (metis append_eq_conv_conj append_take_drop_id)

lemma HasPrefix_append [simp]: "strings_HasPrefix (p @ r) p"
  by (simp add: strings_HasPrefix_def)

lemma TrimPrefix_append [simp]: "strings_TrimPrefix (p @ r) p = r"
  by (simp add: strings_TrimPrefix_def)

lemma Index_Some:
  "strings_Index s sep = Some i \<Longrightarrow>
     i + length sep \<le> length s \<and> take (length sep) (drop i s) = sep
     \<and> (\<forall>j < i. \<not> strings_HasPrefix (drop j s) sep)"
proof (induction s sep arbitrary: i rule: strings_Index.induct)
  case (1 sep)
  then show ?case by (simp split: if_splits)
next
  case (2 c s sep)
  show ?case
  proof (cases "strings_HasPrefix (c # s) sep")
    case True
    then have "i = 0" using "2.prems" by simp
    moreover have "length sep \<le> length (c # s)"
      using True unfolding HasPrefix_iff by (metis length_append le_add1)
    ultimately show ?thesis using True by (simp add: strings_HasPrefix_def)
  next
    case False
    then obtain k where k: "strings_Index s sep = Some k" "i = Suc k"
      using "2.prems" by auto
    have "\<not> strings_HasPrefix (drop j (c # s)) sep" if "j < i" for j
      using that False "2.IH" [OF False k(1)] k(2) by (cases j) auto
    then show ?thesis using "2.IH" [OF False k(1)] k(2) by simp
  qed
qed

lemma Index_None:
  "strings_Index s sep = None \<Longrightarrow> j \<le> length s \<Longrightarrow> \<not> strings_HasPrefix (drop j s) sep"
proof (induction s sep arbitrary: j rule: strings_Index.induct)
  case (1 sep)
  then show ?case by (simp add: strings_HasPrefix_def split: if_splits)
next
  case (2 c s sep)
  then have no: "\<not> strings_HasPrefix (c # s) sep" by (simp split: if_splits)
  with "2.prems" have "strings_Index s sep = None" by simp
  with "2.IH" [OF no] "2.prems" no show ?case by (cases j) auto
qed

subsection \<open>strconv: decimal text and back\<close>

lemma digit_char_facts:
  assumes "d < 10"
  shows "is_digit (digit_char d)" and "digit_val (digit_char d) = d"
    and "digit_char d \<noteq> CHR ''-''" and "digit_char d \<noteq> CHR ''+''"
    and "digit_char d \<noteq> CHR ''/''" and "digit_char d \<noteq> CHR ''.''"
proof -
  have v: "of_char (digit_char d) = 48 + d"
    using assms by (simp add: digit_char_def)
  then show "is_digit (digit_char d)" and "digit_val (digit_char d) = d"
    using assms by (simp_all add: is_digit_def digit_val_def)
  have "of_char (digit_char d) \<noteq> (45::nat)" "of_char (digit_char d) \<noteq> (43::nat)"
    "of_char (digit_char d) \<noteq> (47::nat)" "of_char (digit_char d) \<noteq> (46::nat)"
    using v by simp_all
  then show "digit_char d \<noteq> CHR ''-''" "digit_char d \<noteq> CHR ''+''"
    "digit_char d \<noteq> CHR ''/''" "digit_char d \<noteq> CHR ''.''"
    by auto
qed

lemma nat_digits_nonempty [simp]: "nat_digits n \<noteq> []"
  by (subst nat_digits.simps) simp

lemma nat_digits_set: "c \<in> set (nat_digits n) \<Longrightarrow> \<exists>d < 10. c = digit_char d"
proof (induction n rule: nat_digits.induct)
  case (1 n)
  show ?case
  proof (cases "n < 10")
    case True
    then have "c = digit_char n" using "1.prems" by (simp add: nat_digits.simps [of n])
    then show ?thesis using True by blast
  next
    case False
    then have "c \<in> set (nat_digits (n div 10)) \<or> c = digit_char (n mod 10)"
      using "1.prems" by (auto simp: nat_digits.simps [of n])
    then show ?thesis
    proof
      assume "c \<in> set (nat_digits (n div 10))"
      then show ?thesis by (rule "1.IH" [OF False])
    next
      assume "c = digit_char (n mod 10)"
      then show ?thesis by (intro exI [of _ "n mod 10"]) simp
    qed
  qed
qed

lemma nat_digits_is_digit: "list_all is_digit (nat_digits n)"
  unfolding list_all_iff using nat_digits_set digit_char_facts(1) by blast

lemma digits_val_snoc: "digits_val (s @ [c]) = digits_val s * 10 + digit_val c"
  by (simp add: digits_val_def)

lemma digits_val_nat_digits: "digits_val (nat_digits n) = n"
proof (induction n rule: nat_digits.induct)
  case (1 n)
  show ?case
  proof (cases "n < 10")
    case True
    then show ?thesis
      by (simp add: nat_digits.simps [of n] digits_val_def digit_char_facts)
  next
    case False
    have "digits_val (nat_digits n) = n div 10 * 10 + n mod 10"
      using "1.IH" [OF False] False
      by (simp add: nat_digits.simps [of n] digits_val_snoc digit_char_facts)
    then show ?thesis by simp
  qed
qed

lemma parse_unsigned_nat_digits [simp]: "parse_unsigned (nat_digits n) = Some n"
  by (simp add: parse_unsigned_def nat_digits_is_digit digits_val_nat_digits)

lemma nat_digits_head:
  obtains c cs where "nat_digits n = c # cs" "c \<noteq> CHR ''-''" "c \<noteq> CHR ''+''"
proof (cases "nat_digits n")
  case Nil
  then show ?thesis by simp
next
  case (Cons c cs)
  then have "c \<in> set (nat_digits n)" by simp
  then obtain d where "d < 10" "c = digit_char d" using nat_digits_set by blast
  then show ?thesis using that Cons digit_char_facts by blast
qed

lemma Atoi_nat_digits: "strconv_Atoi (nat_digits n) = (if int64_range (int n) then Some (int n) else None)"
proof -
  obtain c cs where "nat_digits n = c # cs" "c \<noteq> CHR ''-''" "c \<noteq> CHR ''+''"
    by (rule nat_digits_head)
  then show ?thesis
    using parse_unsigned_nat_digits [of n] by (simp add: strconv_Atoi_def strip_sign_def)
qed

lemma Atoi_Itoa: "int64_range i \<Longrightarrow> strconv_Atoi (strconv_Itoa i) = Some i"
proof (cases "i < 0")
  case True
  moreover assume "int64_range i"
  ultimately show ?thesis by (simp add: strconv_Itoa_def strconv_Atoi_def strip_sign_def)
next
  case False
  moreover assume "int64_range i"
  ultimately show ?thesis by (simp add: strconv_Itoa_def Atoi_nat_digits)
qed

lemma Atoi_range: "strconv_Atoi s = Some i \<Longrightarrow> int64_range i"
  by (auto simp: strconv_Atoi_def Let_def split: prod.splits if_splits option.splits)

lemma Itoa_inj: "int64_range i \<Longrightarrow> int64_range j \<Longrightarrow> strconv_Itoa i = strconv_Itoa j \<Longrightarrow> i = j"
  by (metis Atoi_Itoa option.inject)

lemma Itoa_plain: "plain_segment (strconv_Itoa i)"
proof -
  have no: "CHR ''/'' \<notin> set (nat_digits n)" "CHR ''.'' \<notin> set (nat_digits n)" for n
    using nat_digits_set [of _ n] digit_char_facts(5,6) by metis+
  have "strconv_Itoa i \<noteq> []" by (simp add: strconv_Itoa_def)
  moreover have "CHR ''/'' \<notin> set (strconv_Itoa i)" "CHR ''.'' \<notin> set (strconv_Itoa i)"
    using no by (auto simp: strconv_Itoa_def)
  ultimately show ?thesis unfolding plain_segment_def by auto
qed

subsection \<open>path: joining one more segment\<close>

lemma path_split_nonempty [simp]: "path_split s \<noteq> []"
  by (induction s) (auto split: list.splits)

lemma path_split_plain: "CHR ''/'' \<notin> set s \<Longrightarrow> path_split s = [s]"
  by (induction s) auto

lemma path_split_append: "path_split (a @ CHR ''/'' # b) = path_split a @ path_split b"
proof (induction a)
  case Nil
  show ?case by simp
next
  case (Cons c a)
  then show ?case by (cases "path_split a") auto
qed

lemma path_concat_snoc: "xs \<noteq> [] \<Longrightarrow> path_concat (xs @ [x]) = path_concat xs @ CHR ''/'' # x"
proof (induction xs rule: path_concat.induct)
  case 1
  then show ?case by simp
next
  case (2 x)
  show ?case by simp
next
  case (3 x y ys)
  then show ?case by simp
qed

lemma path_concat_Nil_iff: "(\<forall>x \<in> set xs. x \<noteq> []) \<Longrightarrow> path_concat xs = [] \<longleftrightarrow> xs = []"
  by (induction xs rule: path_concat.induct) auto

lemma HasPrefix_slash_append:
  "a \<noteq> [] \<Longrightarrow> strings_HasPrefix (a @ b) ''/'' = strings_HasPrefix a ''/''"
  by (cases a) (auto simp: strings_HasPrefix_def)

lemma clean_step_plain: "plain_segment x \<Longrightarrow> clean_step r st x = x # st"
  by (simp add: clean_step_def plain_segment_def)

lemma path_stack_snoc:
  assumes "a \<noteq> []" "plain_segment x"
  shows "path_stack (a @ CHR ''/'' # x) = x # path_stack a"
proof -
  have "path_split (a @ CHR ''/'' # x) = path_split a @ [x]"
    using assms(2) by (simp add: path_split_append path_split_plain plain_segment_def)
  then show ?thesis
    using assms by (simp add: path_stack_def HasPrefix_slash_append clean_step_plain)
qed

lemma path_Clean_snoc:
  assumes "a \<noteq> []" "plain_segment x" "path_stack a \<noteq> []"
  shows "path_Clean (a @ CHR ''/'' # x) = path_Clean a @ CHR ''/'' # x"
  using assms
  by (simp add: path_Clean_def path_stack_snoc HasPrefix_slash_append path_concat_snoc)

lemma path_stack_plain_end:
  assumes "plain_segment y" "es \<noteq> []" "last es = y" "\<forall>e \<in> set es. e \<noteq> []"
  shows "path_stack (path_concat es) \<noteq> []"
proof (cases "butlast es = []")
  case True
  then have "es = [y]"
    using assms(2,3) append_butlast_last_id by fastforce
  then show ?thesis
    using assms(1) by (simp add: path_stack_def path_split_plain clean_step_plain plain_segment_def)
next
  case False
  have es: "es = butlast es @ [y]" using assms(2,3) by auto
  have "path_concat (butlast es) \<noteq> []"
    using path_concat_Nil_iff [of "butlast es"] False assms(4) by (meson in_set_butlastD)
  then have "path_stack (path_concat (butlast es @ [y])) = y # path_stack (path_concat (butlast es))"
    using False assms(1) by (simp add: path_concat_snoc path_stack_snoc)
  then show ?thesis using es by simp
qed

text \<open>Appending a plain segment after a plain segment appends it to the joined path.\<close>

lemma path_Join_snoc:
  assumes y: "plain_segment y" and x: "plain_segment x"
  shows "path_Join (es @ [y, x]) = path_Join (es @ [y]) @ CHR ''/'' # x"
proof -
  let ?fs = "filter (\<lambda>e. e \<noteq> []) es @ [y]"
  have ne: "y \<noteq> []" "x \<noteq> []" using x y by (simp_all add: plain_segment_def)
  have all: "\<forall>e \<in> set ?fs. e \<noteq> []" using ne by simp
  have "path_stack (path_concat ?fs) \<noteq> []"
    by (rule path_stack_plain_end [OF y _ _ all]) simp_all
  moreover have "path_concat ?fs \<noteq> []"
    using path_concat_Nil_iff [OF all] by simp
  ultimately have "path_Clean (path_concat ?fs @ CHR ''/'' # x) = path_Clean (path_concat ?fs) @ CHR ''/'' # x"
    using x by (intro path_Clean_snoc)
  moreover have "path_concat (?fs @ [x]) = path_concat ?fs @ CHR ''/'' # x"
    by (rule path_concat_snoc) simp
  ultimately show ?thesis using ne by (simp add: path_Join_def)
qed

text \<open>Joining one plain segment to an arbitrary prefix: what comes before it does not depend on it.\<close>

definition join_base :: "string \<Rightarrow> string" where
  "join_base p = (if p = [] then [] else (if strings_HasPrefix p ''/'' then ''/'' else [])
     @ (if path_stack p = [] then [] else path_concat (rev (path_stack p)) @ ''/''))"

lemma path_Join_base:
  assumes "plain_segment x"
  shows "path_Join [p, x] = join_base p @ x"
proof (cases "p = []")
  case True
  have "path_stack x = [x]"
    using assms by (simp add: path_stack_def path_split_plain clean_step_plain plain_segment_def)
  moreover have "\<not> strings_HasPrefix x ''/''"
    using assms by (cases x) (auto simp: plain_segment_def strings_HasPrefix_def)
  ultimately show ?thesis using True assms
    by (auto simp: path_Join_def join_base_def path_Clean_def plain_segment_def)
next
  case False
  have "path_stack (p @ CHR ''/'' # x) = x # path_stack p" by (rule path_stack_snoc [OF False assms])
  then show ?thesis using False assms
    by (auto simp: path_Join_def join_base_def path_Clean_def plain_segment_def HasPrefix_slash_append path_concat_snoc)
qed

end
