(* ===== verification/Etcd.thy ===== *)
theory Etcd
  imports GoStd
begin

section \<open>The etcd client as an interface\<close>

text \<open>
  The control plane lives in etcd, which is not part of this repository: the client is a
  parameter \<open>E\<close>, a record of the calls the sources make (\<open>Grant\<close>, \<open>Revoke\<close>, \<open>KeepAlive\<close>,
  \<open>Put\<close> under a lease, \<open>Get\<close>, \<open>Get\<close> with prefix, and \<open>If(cmp).Then(op).Commit()\<close>), each a function
  of the server state that returns an error or a response together with the next state.
  The locale \<open>etcd_kv\<close> states etcd's documented behaviour over a \<open>view\<close> of that state: keys
  with create and mod revision and lease, one revision counter, the live leases. An errored
  write is ambiguous: it was applied or it was not. The locale \<open>etcd_up\<close> adds an availability
  predicate under which calls do not fail. \<open>ref_etcd\<close> is a store with a fault script that
  satisfies both; the witnesses run on it.
\<close>

subsection \<open>Contexts, keys, transactions\<close>

datatype 'c gctx = Background | Caller 'c | WithTimeout "'c gctx" nanos | WithCancel "'c gctx"

record kv =
  kv_key :: string
  kv_value :: string
  kv_create :: int
  kv_mod :: int
  kv_lease :: lease_id

datatype etcd_cmp = CreateRevision_eq string int | Value_eq string string

datatype etcd_op = OpPut string string lease_id | OpDelete string

record ('s, 'c, 'e) etcd =
  et_Grant :: "'c gctx \<Rightarrow> int \<Rightarrow> 's \<Rightarrow> ('e + lease_id) \<times> 's"
  et_Revoke :: "'c gctx \<Rightarrow> lease_id \<Rightarrow> 's \<Rightarrow> ('e + unit) \<times> 's"
  et_KeepAlive :: "'c gctx \<Rightarrow> lease_id \<Rightarrow> 's \<Rightarrow> ('e + unit) \<times> 's"
  et_Put :: "'c gctx \<Rightarrow> string \<Rightarrow> string \<Rightarrow> lease_id \<Rightarrow> 's \<Rightarrow> ('e + unit) \<times> 's"
  et_Get :: "'c gctx \<Rightarrow> string \<Rightarrow> 's \<Rightarrow> ('e + kv list) \<times> 's"
  et_GetPrefix :: "'c gctx \<Rightarrow> string \<Rightarrow> 's \<Rightarrow> ('e + kv list) \<times> 's"
  et_Txn :: "'c gctx \<Rightarrow> etcd_cmp \<Rightarrow> etcd_op \<Rightarrow> 's \<Rightarrow> ('e + bool \<times> int) \<times> 's"

subsection \<open>The view of a store and what the calls do to it\<close>

record etcd_view =
  ev_kvs :: "string \<rightharpoonup> kv"
  ev_rev :: int
  ev_leases :: "lease_id set"

definition wf_view :: "etcd_view \<Rightarrow> bool" where
  "wf_view v \<longleftrightarrow> finite (dom (ev_kvs v)) \<and> 0 \<le> ev_rev v \<and>
     (\<forall>k x. ev_kvs v k = Some x \<longrightarrow> kv_key x = k \<and> 0 < kv_create x \<and> kv_create x \<le> kv_mod x
        \<and> kv_mod x \<le> ev_rev v \<and> (kv_lease x = 0 \<or> kv_lease x \<in> ev_leases v))"

text \<open>An absent key has create revision 0; a comparison of the value of an absent key fails.\<close>

fun cmp_holds :: "etcd_view \<Rightarrow> etcd_cmp \<Rightarrow> bool" where
  "cmp_holds v (CreateRevision_eq k n) =
     (case ev_kvs v k of None \<Rightarrow> n = 0 | Some x \<Rightarrow> kv_create x = n)"
| "cmp_holds v (Value_eq k x) =
     (case ev_kvs v k of None \<Rightarrow> False | Some y \<Rightarrow> kv_value y = x)"

definition put_kv :: "etcd_view \<Rightarrow> string \<Rightarrow> string \<Rightarrow> lease_id \<Rightarrow> kv" where
  "put_kv v k x l = \<lparr>kv_key = k, kv_value = x,
     kv_create = (case ev_kvs v k of None \<Rightarrow> ev_rev v + 1 | Some y \<Rightarrow> kv_create y),
     kv_mod = ev_rev v + 1, kv_lease = l\<rparr>"

fun apply_op :: "etcd_view \<Rightarrow> etcd_op \<Rightarrow> etcd_view" where
  "apply_op v (OpPut k x l) =
     v\<lparr>ev_kvs := (ev_kvs v)(k \<mapsto> put_kv v k x l), ev_rev := ev_rev v + 1\<rparr>"
| "apply_op v (OpDelete k) =
     (if ev_kvs v k = None then v
      else v\<lparr>ev_kvs := (ev_kvs v)(k := None), ev_rev := ev_rev v + 1\<rparr>)"

text \<open>A put under a lease needs the lease to be alive.\<close>

fun op_allowed :: "etcd_view \<Rightarrow> etcd_op \<Rightarrow> bool" where
  "op_allowed v (OpPut k x l) = (l = 0 \<or> l \<in> ev_leases v)"
| "op_allowed v (OpDelete k) = True"

definition kvs_without :: "lease_id \<Rightarrow> (string \<rightharpoonup> kv) \<Rightarrow> (string \<rightharpoonup> kv)" where
  "kvs_without l m = (\<lambda>k. case m k of None \<Rightarrow> None | Some x \<Rightarrow> if kv_lease x = l then None else Some x)"

lemma kvs_without_Some: "kvs_without l m k = Some x \<longleftrightarrow> m k = Some x \<and> kv_lease x \<noteq> l"
  by (auto simp: kvs_without_def split: option.splits if_splits)

text \<open>Ending a lease (revoke or expiry) removes every key bound to it.\<close>

definition lease_ended :: "lease_id \<Rightarrow> etcd_view \<Rightarrow> etcd_view \<Rightarrow> bool" where
  "lease_ended l v v' \<longleftrightarrow> ev_kvs v' = kvs_without l (ev_kvs v)
     \<and> ev_leases v' = ev_leases v - {l} \<and> ev_rev v \<le> ev_rev v'"

definition txn_outcome :: "'e + bool \<times> int \<Rightarrow> etcd_cmp \<Rightarrow> etcd_op \<Rightarrow> etcd_view \<Rightarrow> etcd_view \<Rightarrow> bool" where
  "txn_outcome r cmp op v v' = (case r of
       Inl e \<Rightarrow> v' = v \<or> (cmp_holds v cmp \<and> op_allowed v op \<and> v' = apply_op v op)
     | Inr (succ, rv) \<Rightarrow> succ = cmp_holds v cmp \<and> rv = ev_rev v'
         \<and> (if succ then op_allowed v op \<and> v' = apply_op v op else v' = v))"

definition prefix_kvs :: "etcd_view \<Rightarrow> string \<Rightarrow> kv set" where
  "prefix_kvs v p = {x. \<exists>k. ev_kvs v k = Some x \<and> strings_HasPrefix k p}"

subsection \<open>The documented laws\<close>

locale etcd_kv =
  fixes E :: "('s, 'c, 'e) etcd"
    and view :: "'s \<Rightarrow> etcd_view"
    and ok :: "'s \<Rightarrow> bool"
  assumes ok_wf: "ok s \<Longrightarrow> wf_view (view s)"
    and grant: "ok s \<Longrightarrow> et_Grant E c t s = (gr, s') \<Longrightarrow> ok s' \<and> ev_kvs (view s') = ev_kvs (view s)
        \<and> ev_rev (view s') = ev_rev (view s)
        \<and> (case gr of Inl e \<Rightarrow> ev_leases (view s) \<subseteq> ev_leases (view s')
           | Inr l \<Rightarrow> l \<noteq> 0 \<and> l \<notin> ev_leases (view s) \<and> ev_leases (view s') = insert l (ev_leases (view s)))"
    and revoke: "ok s \<Longrightarrow> et_Revoke E c l s = (u, s') \<Longrightarrow> ok s'
        \<and> (case u of Inl e \<Rightarrow> view s' = view s \<or> lease_ended l (view s) (view s')
           | Inr _ \<Rightarrow> lease_ended l (view s) (view s'))"
    and keepalive: "ok s \<Longrightarrow> et_KeepAlive E c l s = (u, s') \<Longrightarrow> ok s' \<and> view s' = view s"
    and put: "ok s \<Longrightarrow> et_Put E c k x l s = (u, s') \<Longrightarrow> ok s'
        \<and> (case u of Inl e \<Rightarrow> view s' = view s \<or> (op_allowed (view s) (OpPut k x l) \<and> view s' = apply_op (view s) (OpPut k x l))
           | Inr _ \<Rightarrow> op_allowed (view s) (OpPut k x l) \<and> view s' = apply_op (view s) (OpPut k x l))"
    and get: "ok s \<Longrightarrow> et_Get E c k s = (xr, s') \<Longrightarrow> ok s' \<and> view s' = view s
        \<and> (case xr of Inl e \<Rightarrow> True
           | Inr xs \<Rightarrow> xs = (case ev_kvs (view s) k of None \<Rightarrow> [] | Some x \<Rightarrow> [x]))"
    and get_prefix: "ok s \<Longrightarrow> et_GetPrefix E c p s = (xr, s') \<Longrightarrow> ok s' \<and> view s' = view s
        \<and> (case xr of Inl e \<Rightarrow> True
           | Inr xs \<Rightarrow> set xs = prefix_kvs (view s) p \<and> sorted (map kv_key xs) \<and> distinct (map kv_key xs))"
    and txn: "ok s \<Longrightarrow> et_Txn E c cmp op s = (tr, s') \<Longrightarrow> ok s' \<and> txn_outcome tr cmp op (view s) (view s')"

text \<open>One call of any client, whatever its arguments and its answer.\<close>

inductive et_call :: "('s, 'c, 'e) etcd \<Rightarrow> 's \<Rightarrow> 's \<Rightarrow> bool" for E where
  call_grant: "et_Grant E c t s = (gr, s') \<Longrightarrow> et_call E s s'"
| call_revoke: "et_Revoke E c l s = (u, s') \<Longrightarrow> et_call E s s'"
| call_keepalive: "et_KeepAlive E c l s = (u, s') \<Longrightarrow> et_call E s s'"
| call_put: "et_Put E c k x l s = (u, s') \<Longrightarrow> et_call E s s'"
| call_get: "et_Get E c k s = (xr, s') \<Longrightarrow> et_call E s s'"
| call_get_prefix: "et_GetPrefix E c p s = (xr, s') \<Longrightarrow> et_call E s s'"
| call_txn: "et_Txn E c cmp op s = (tr, s') \<Longrightarrow> et_call E s s'"

inductive_cases et_callE: "et_call E s s'"

lemma apply_op_rev: "ev_rev v \<le> ev_rev (apply_op v op)"
  by (cases op) auto

lemma txn_outcome_rev: "txn_outcome r cmp op v v' \<Longrightarrow> ev_rev v \<le> ev_rev v'"
  using apply_op_rev [of v op] by (auto simp: txn_outcome_def split: sum.splits if_splits)

context etcd_kv
begin

text \<open>The revision never decreases, in any sequence of calls.\<close>

lemma call_mono: "et_call E s s' \<Longrightarrow> ok s \<Longrightarrow> ok s' \<and> ev_rev (view s) \<le> ev_rev (view s')"
proof (induction rule: et_call.induct)
  case (call_grant c t s gr s')
  then show ?case using grant [of s c t gr s'] by auto
next
  case (call_revoke c l s u s')
  then show ?case using revoke [of s c l u s'] by (auto simp: lease_ended_def split: sum.splits)
next
  case (call_keepalive c l s u s')
  then show ?case using keepalive [of s c l u s'] by auto
next
  case (call_put c k x l s u s')
  then show ?case
    using put [of s c k x l u s'] apply_op_rev [of "view s" "OpPut k x l"] by (auto split: sum.splits)
next
  case (call_get c k s xr s')
  then show ?case using get [of s c k xr s'] by auto
next
  case (call_get_prefix c p s xr s')
  then show ?case using get_prefix [of s c p xr s'] by auto
next
  case (call_txn c cmp op s tr s')
  then show ?case using txn [of s c cmp op tr s'] txn_outcome_rev by blast
qed

lemma calls_mono: "(et_call E)\<^sup>*\<^sup>* s s' \<Longrightarrow> ok s \<Longrightarrow> ok s' \<and> ev_rev (view s) \<le> ev_rev (view s')"
proof (induction rule: rtranclp_induct)
  case base
  then show ?case by simp
next
  case (step y z)
  then show ?case using call_mono [of y z] by auto
qed

end

text \<open>While the cluster is available (\<open>up\<close>), every well-formed call returns a response.\<close>

locale etcd_up = etcd_kv +
  fixes up :: "'s \<Rightarrow> bool"
  assumes up_get: "ok s \<Longrightarrow> up s \<Longrightarrow> (\<exists>xs. fst (et_Get E c k s) = Inr xs) \<and> up (snd (et_Get E c k s))"
    and up_get_prefix: "ok s \<Longrightarrow> up s \<Longrightarrow>
        (\<exists>xs. fst (et_GetPrefix E c p s) = Inr xs) \<and> up (snd (et_GetPrefix E c p s))"
    and up_txn: "ok s \<Longrightarrow> up s \<Longrightarrow> op_allowed (view s) op \<or> \<not> cmp_holds (view s) cmp \<Longrightarrow>
        (\<exists>x. fst (et_Txn E c cmp op s) = Inr x) \<and> up (snd (et_Txn E c cmp op s))"

end
