(* ===== verification/EtcdRef.thy ===== *)
theory EtcdRef
  imports Etcd
begin

section \<open>A reference store that satisfies the etcd laws\<close>

text \<open>
  An executable store: the keys in key order with their revisions and leases, the live leases,
  and a script of faults. Each call takes the next fault: none, a failure before the call is
  applied, or a failure after it was applied (the response is lost). The interpretations show
  that it satisfies \<open>etcd_kv\<close> and, with an empty script, \<open>etcd_up\<close>; so every property stated
  over a client \<open>E\<close> can be run on it.
\<close>

datatype fault = NoFault | FailBefore | FailAfter

datatype ref_err = Unavailable | LeaseNotFound

record ref_state =
  rs_kvs :: "kv list"
  rs_rev :: int
  rs_leases :: "lease_id list"
  rs_script :: "fault list"

definition ref_init :: "fault list \<Rightarrow> ref_state" where
  "ref_init fs = \<lparr>rs_kvs = [], rs_rev = 1, rs_leases = [], rs_script = fs\<rparr>"

definition kv_find :: "kv list \<Rightarrow> string \<Rightarrow> kv option" where
  "kv_find xs k = map_of (map (\<lambda>x. (kv_key x, x)) xs) k"

definition ref_view :: "ref_state \<Rightarrow> etcd_view" where
  "ref_view s = \<lparr>ev_kvs = kv_find (rs_kvs s), ev_rev = rs_rev s, ev_leases = set (rs_leases s)\<rparr>"

definition ref_ok :: "ref_state \<Rightarrow> bool" where
  "ref_ok s = (sorted (map kv_key (rs_kvs s)) \<and> distinct (map kv_key (rs_kvs s)) \<and> 0 \<le> rs_rev s
     \<and> list_all (\<lambda>x. 0 < kv_create x \<and> kv_create x \<le> kv_mod x \<and> kv_mod x \<le> rs_rev s
         \<and> (kv_lease x = 0 \<or> kv_lease x \<in> set (rs_leases s))) (rs_kvs s))"

definition ref_up :: "ref_state \<Rightarrow> bool" where
  "ref_up s = (rs_script s = [])"

definition next_fault :: "ref_state \<Rightarrow> fault \<times> ref_state" where
  "next_fault s = (case rs_script s of [] \<Rightarrow> (NoFault, s) | f # fs \<Rightarrow> (f, s\<lparr>rs_script := fs\<rparr>))"

definition ref_call :: "(ref_state \<Rightarrow> (ref_err + 'r) \<times> ref_state) \<Rightarrow> ref_state \<Rightarrow> (ref_err + 'r) \<times> ref_state" where
  "ref_call f s = (case next_fault s of (ft, s1) \<Rightarrow>
     (case ft of NoFault \<Rightarrow> f s1 | FailBefore \<Rightarrow> (Inl Unavailable, s1)
      | FailAfter \<Rightarrow> (Inl Unavailable, snd (f s1))))"

definition fresh_lease :: "lease_id list \<Rightarrow> lease_id" where
  "fresh_lease ls = foldr max ls 0 + 1"

definition ref_put :: "string \<Rightarrow> string \<Rightarrow> lease_id \<Rightarrow> ref_state \<Rightarrow> ref_state" where
  "ref_put k x l s = s\<lparr>rs_kvs := insort_key kv_key (put_kv (ref_view s) k x l)
       (filter (\<lambda>y. kv_key y \<noteq> k) (rs_kvs s)), rs_rev := rs_rev s + 1\<rparr>"

definition ref_delete :: "string \<Rightarrow> ref_state \<Rightarrow> ref_state" where
  "ref_delete k s = (if kv_find (rs_kvs s) k = None then s
     else s\<lparr>rs_kvs := filter (\<lambda>y. kv_key y \<noteq> k) (rs_kvs s), rs_rev := rs_rev s + 1\<rparr>)"

fun ref_apply :: "etcd_op \<Rightarrow> ref_state \<Rightarrow> (ref_err + unit) \<times> ref_state" where
  "ref_apply (OpPut k x l) s = (if l = 0 \<or> l \<in> set (rs_leases s) then (Inr (), ref_put k x l s)
     else (Inl LeaseNotFound, s))"
| "ref_apply (OpDelete k) s = (Inr (), ref_delete k s)"

text \<open>Ending a lease drops its keys; it is both the revoke call and the expiry at the server.\<close>

definition ref_end_lease :: "lease_id \<Rightarrow> ref_state \<Rightarrow> ref_state" where
  "ref_end_lease l s = s\<lparr>rs_kvs := filter (\<lambda>x. kv_lease x \<noteq> l) (rs_kvs s),
     rs_leases := filter (\<lambda>m. m \<noteq> l) (rs_leases s), rs_rev := rs_rev s + 1\<rparr>"

definition ref_txn :: "etcd_cmp \<Rightarrow> etcd_op \<Rightarrow> ref_state \<Rightarrow> (ref_err + bool \<times> int) \<times> ref_state" where
  "ref_txn cmp op s = (if cmp_holds (ref_view s) cmp then
       (case ref_apply op s of (Inl e, s1) \<Rightarrow> (Inl e, s1) | (Inr _, s1) \<Rightarrow> (Inr (True, rs_rev s1), s1))
     else (Inr (False, rs_rev s), s))"

definition ref_etcd :: "(ref_state, 'c, ref_err) etcd" where
  "ref_etcd = \<lparr>
     et_Grant = (\<lambda>_ _. ref_call (\<lambda>s. let l = fresh_lease (rs_leases s) in (Inr l, s\<lparr>rs_leases := l # rs_leases s\<rparr>))),
     et_Revoke = (\<lambda>_ l. ref_call (\<lambda>s. (Inr (), ref_end_lease l s))),
     et_KeepAlive = (\<lambda>_ _. ref_call (\<lambda>s. (Inr (), s))),
     et_Put = (\<lambda>_ k x l. ref_call (ref_apply (OpPut k x l))),
     et_Get = (\<lambda>_ k. ref_call (\<lambda>s. (Inr (case kv_find (rs_kvs s) k of None \<Rightarrow> [] | Some x \<Rightarrow> [x]), s))),
     et_GetPrefix = (\<lambda>_ p. ref_call (\<lambda>s. (Inr (filter (\<lambda>x. strings_HasPrefix (kv_key x) p) (rs_kvs s)), s))),
     et_Txn = (\<lambda>_ cmp op. ref_call (ref_txn cmp op))\<rparr>"

lemmas ref_etcd_ops = etcd.simps

subsection \<open>The store's keys as a map\<close>

lemma kv_find_Some:
  assumes "distinct (map kv_key xs)"
  shows "kv_find xs k = Some x \<longleftrightarrow> x \<in> set xs \<and> kv_key x = k"
proof -
  have "distinct (map fst (map (\<lambda>x. (kv_key x, x)) xs))" using assms by (simp add: comp_def)
  from map_of_eq_Some_iff [OF this, of k x]
  have "kv_find xs k = Some x \<longleftrightarrow> (k, x) \<in> set (map (\<lambda>x. (kv_key x, x)) xs)"
    by (simp only: kv_find_def)
  then show ?thesis by auto
qed

lemma kv_find_Nil [simp]: "kv_find [] = Map.empty"
  by (simp add: kv_find_def fun_eq_iff)

lemma kv_find_None: "kv_find xs k = None \<longleftrightarrow> k \<notin> kv_key ` set xs"
  by (force simp: kv_find_def map_of_eq_None_iff)

lemma kv_find_eqI:
  assumes "distinct (map kv_key xs)" "\<And>k x. m k = Some x \<longleftrightarrow> x \<in> set xs \<and> kv_key x = k"
  shows "kv_find xs = m"
proof
  fix k show "kv_find xs k = m k"
    using kv_find_Some [OF assms(1)] assms(2) by (metis not_Some_eq)
qed

lemma ref_ok_script [simp]: "ref_ok (s\<lparr>rs_script := fs\<rparr>) = ref_ok s"
  by (simp add: ref_ok_def)

lemma ref_view_script [simp]: "ref_view (s\<lparr>rs_script := fs\<rparr>) = ref_view s"
  by (simp add: ref_view_def)

lemma ref_ok_distinct: "ref_ok s \<Longrightarrow> distinct (map kv_key (rs_kvs s))"
  by (simp add: ref_ok_def)

lemma ref_ok_wf: "ref_ok s \<Longrightarrow> wf_view (ref_view s)"
proof -
  assume ok: "ref_ok s"
  have "finite (dom (kv_find (rs_kvs s)))"
    unfolding kv_find_def by (rule finite_dom_map_of)
  then show ?thesis
    using ok kv_find_Some [OF ref_ok_distinct [OF ok]]
    by (auto simp: wf_view_def ref_view_def ref_ok_def list_all_iff)
qed

lemma ref_put_view:
  assumes "ref_ok s" "l = 0 \<or> l \<in> set (rs_leases s)"
  shows "ref_view (ref_put k x l s) = apply_op (ref_view s) (OpPut k x l)"
    and "ref_ok (ref_put k x l s)"
proof -
  let ?y = "put_kv (ref_view s) k x l" and ?ys = "filter (\<lambda>y. kv_key y \<noteq> k) (rs_kvs s)"
  have key: "kv_key ?y = k" by (simp add: put_kv_def)
  have d: "distinct (map kv_key ?ys)" "sorted (map kv_key ?ys)"
    using assms(1) by (simp_all add: ref_ok_def distinct_map_filter sorted_filter)
  have "distinct (map kv_key (insort_key kv_key ?y ?ys))"
    using d key by (simp add: distinct_map distinct_insort inj_on_def set_insort_key) (metis (mono_tags, lifting))
  moreover have "sorted (map kv_key (insort_key kv_key ?y ?ys))"
    using d by (simp add: sorted_insort_key)
  ultimately have di: "distinct (map kv_key (insort_key kv_key ?y ?ys))"
    "sorted (map kv_key (insort_key kv_key ?y ?ys))" .
  have "kv_find (insort_key kv_key ?y ?ys) = (kv_find (rs_kvs s))(k \<mapsto> ?y)"
    using kv_find_Some [OF ref_ok_distinct [OF assms(1)]] key
    by (intro kv_find_eqI di) (auto simp: set_insort_key)
  then show "ref_view (ref_put k x l s) = apply_op (ref_view s) (OpPut k x l)"
    by (simp add: ref_view_def ref_put_def)
  have "0 < kv_create ?y \<and> kv_create ?y \<le> kv_mod ?y \<and> kv_mod ?y = rs_rev s + 1 \<and> kv_lease ?y = l"
    using ref_ok_wf [OF assms(1)] by (fastforce simp: put_kv_def wf_view_def ref_view_def split: option.splits)
  then show "ref_ok (ref_put k x l s)"
    using assms di by (fastforce simp: ref_ok_def ref_put_def list_all_iff set_insort_key)
qed

lemma ref_delete_view:
  assumes "ref_ok s"
  shows "ref_view (ref_delete k s) = apply_op (ref_view s) (OpDelete k)" and "ref_ok (ref_delete k s)"
proof -
  have d: "distinct (map kv_key (filter (\<lambda>y. kv_key y \<noteq> k) (rs_kvs s)))"
    using assms by (simp add: ref_ok_def distinct_map_filter)
  have "kv_find (filter (\<lambda>y. kv_key y \<noteq> k) (rs_kvs s)) = (kv_find (rs_kvs s))(k := None)"
    using kv_find_Some [OF ref_ok_distinct [OF assms]] by (intro kv_find_eqI d) auto
  then show "ref_view (ref_delete k s) = apply_op (ref_view s) (OpDelete k)"
    by (simp add: ref_view_def ref_delete_def)
  show "ref_ok (ref_delete k s)"
    using assms d by (fastforce simp: ref_ok_def ref_delete_def list_all_iff sorted_filter)
qed

lemma ref_end_lease_view:
  assumes "ref_ok s"
  shows "lease_ended l (ref_view s) (ref_view (ref_end_lease l s))" and "ref_ok (ref_end_lease l s)"
proof -
  have d: "distinct (map kv_key (filter (\<lambda>x. kv_lease x \<noteq> l) (rs_kvs s)))"
    using assms by (simp add: ref_ok_def distinct_map_filter)
  have "kv_find (filter (\<lambda>x. kv_lease x \<noteq> l) (rs_kvs s)) = kvs_without l (kv_find (rs_kvs s))"
    using kv_find_Some [OF ref_ok_distinct [OF assms]]
    by (intro kv_find_eqI d) (simp add: kvs_without_Some conj_ac)
  then show "lease_ended l (ref_view s) (ref_view (ref_end_lease l s))"
    by (auto simp: lease_ended_def ref_view_def ref_end_lease_def)
  show "ref_ok (ref_end_lease l s)"
    using assms d by (fastforce simp: ref_ok_def ref_end_lease_def list_all_iff sorted_filter)
qed

lemma fresh_lease_new: "fresh_lease ls \<notin> set ls" and fresh_lease_nonzero: "fresh_lease ls \<noteq> 0"
proof -
  have "x \<le> foldr max ls 0" if "x \<in> set ls" for x :: int
    using that by (induction ls) (auto simp: le_max_iff_disj)
  then show "fresh_lease ls \<notin> set ls" unfolding fresh_lease_def by force
  have "0 \<le> foldr max ls (0::int)" by (induction ls) auto
  then show "fresh_lease ls \<noteq> 0" by (simp add: fresh_lease_def)
qed

subsection \<open>The store satisfies the laws\<close>

lemma next_fault_facts:
  "next_fault s = (ft, s1) \<Longrightarrow> ref_view s1 = ref_view s \<and> (ref_ok s1 = ref_ok s)"
  by (auto simp: next_fault_def split: list.splits)

lemma ref_call_up: "ref_up s \<Longrightarrow> ref_call f s = f s"
  by (simp add: ref_call_def next_fault_def ref_up_def)

text \<open>Whatever the fault, the state is as before the call or as after it.\<close>

lemma ref_call_cases:
  assumes "ref_call f s = (r, s')" "ref_ok s"
  obtains (clean) s1 where "f s1 = (r, s')" "ref_view s1 = ref_view s" "ref_ok s1"
  | (lost) s1 where "r = Inl Unavailable" "s' = snd (f s1)" "ref_view s1 = ref_view s" "ref_ok s1"
  | (skipped) "r = Inl Unavailable" "ref_view s' = ref_view s" "ref_ok s'"
proof -
  obtain ft s1 where nf: "next_fault s = (ft, s1)" by force
  note nf1 = next_fault_facts [OF nf]
  show ?thesis
    using assms nf nf1 that by (cases ft) (auto simp: ref_call_def)
qed

lemma ref_apply_facts:
  assumes "ref_ok s" "ref_apply op s = (r, s')"
  shows "ref_ok s' \<and> (case r of Inl e \<Rightarrow> \<not> op_allowed (ref_view s) op \<and> s' = s
     | Inr _ \<Rightarrow> op_allowed (ref_view s) op \<and> ref_view s' = apply_op (ref_view s) op)"
proof (cases op)
  case (OpPut k x l)
  have "ev_leases (ref_view s) = set (rs_leases s)" by (simp add: ref_view_def)
  then show ?thesis
    using assms OpPut ref_put_view [OF assms(1), of l k x] by (auto split: if_splits)
next
  case (OpDelete k)
  then show ?thesis using assms ref_delete_view [OF assms(1), of k] by auto
qed

lemma ref_apply_lost:
  assumes "ref_ok s"
  shows "ref_ok (snd (ref_apply op s)) \<and> (ref_view (snd (ref_apply op s)) = ref_view s
     \<or> (op_allowed (ref_view s) op \<and> ref_view (snd (ref_apply op s)) = apply_op (ref_view s) op))"
  using ref_apply_facts [OF assms surjective_pairing, of op] by (auto split: sum.splits)

lemma ref_txn_facts:
  assumes "ref_ok s" "ref_txn cmp op s = (r, s')"
  shows "ref_ok s' \<and> txn_outcome r cmp op (ref_view s) (ref_view s')"
proof (cases "cmp_holds (ref_view s) cmp")
  case True
  obtain ra s1 where ra: "ref_apply op s = (ra, s1)" by force
  have "rs_rev s1 = ev_rev (ref_view s1)" by (simp add: ref_view_def)
  then show ?thesis
    using ref_apply_facts [OF assms(1) ra] assms(2) True ra
    by (auto simp: ref_txn_def txn_outcome_def split: sum.splits)
next
  case False
  then show ?thesis
    using assms by (auto simp: ref_txn_def txn_outcome_def ref_view_def)
qed

lemma txn_outcome_lost: "txn_outcome r cmp op v v' \<Longrightarrow> txn_outcome (Inl e) cmp op v v'"
  by (auto simp: txn_outcome_def split: sum.splits if_splits)

lemma ref_txn_lost:
  assumes "ref_ok s"
  shows "ref_ok (snd (ref_txn cmp op s)) \<and> txn_outcome (Inl e) cmp op (ref_view s) (ref_view (snd (ref_txn cmp op s)))"
  using ref_txn_facts [OF assms surjective_pairing, of cmp op] by (auto intro: txn_outcome_lost)

lemma ref_grant_facts:
  assumes "ref_ok s"
  shows "ref_ok (s\<lparr>rs_leases := fresh_lease (rs_leases s) # rs_leases s\<rparr>)"
  using assms by (auto simp: ref_ok_def list_all_iff)

lemma ref_prefix_facts:
  assumes "ref_ok s"
  shows "set (filter (\<lambda>x. strings_HasPrefix (kv_key x) p) (rs_kvs s)) = prefix_kvs (ref_view s) p"
  using kv_find_Some [OF ref_ok_distinct [OF assms]]
  by (auto simp: prefix_kvs_def ref_view_def)

interpretation ref: etcd_kv ref_etcd ref_view ref_ok
proof unfold_locales
  fix s s' :: ref_state and c :: "'c gctx" and t gr
  assume "ref_ok s" "et_Grant ref_etcd c t s = (gr, s')"
  then show "ref_ok s' \<and> ev_kvs (ref_view s') = ev_kvs (ref_view s) \<and> ev_rev (ref_view s') = ev_rev (ref_view s)
      \<and> (case gr of Inl e \<Rightarrow> ev_leases (ref_view s) \<subseteq> ev_leases (ref_view s')
         | Inr l \<Rightarrow> l \<noteq> 0 \<and> l \<notin> ev_leases (ref_view s) \<and> ev_leases (ref_view s') = insert l (ev_leases (ref_view s)))"
    by (auto simp: ref_etcd_def Let_def ref_view_def ref_grant_facts fresh_lease_nonzero elim!: ref_call_cases)
      (metis fresh_lease_new)
next
  fix s s' :: ref_state and c :: "'c gctx" and l u
  assume "ref_ok s" "et_Revoke ref_etcd c l s = (u, s')"
  then show "ref_ok s' \<and> (case u of Inl e \<Rightarrow> ref_view s' = ref_view s \<or> lease_ended l (ref_view s) (ref_view s')
      | Inr _ \<Rightarrow> lease_ended l (ref_view s) (ref_view s'))"
    by (auto simp: ref_etcd_def dest: ref_end_lease_view elim!: ref_call_cases)
next
  fix s s' :: ref_state and c :: "'c gctx" and l u
  assume "ref_ok s" "et_KeepAlive ref_etcd c l s = (u, s')"
  then show "ref_ok s' \<and> ref_view s' = ref_view s"
    by (auto simp: ref_etcd_def elim!: ref_call_cases)
next
  fix s s' :: ref_state and c :: "'c gctx" and k x l u
  assume "ref_ok s" "et_Put ref_etcd c k x l s = (u, s')"
  then show "ref_ok s' \<and> (case u of
        Inl e \<Rightarrow> ref_view s' = ref_view s \<or> (op_allowed (ref_view s) (OpPut k x l) \<and> ref_view s' = apply_op (ref_view s) (OpPut k x l))
      | Inr _ \<Rightarrow> op_allowed (ref_view s) (OpPut k x l) \<and> ref_view s' = apply_op (ref_view s) (OpPut k x l))"
    by (auto simp: ref_etcd_def simp del: ref_apply.simps apply_op.simps op_allowed.simps
        elim!: ref_call_cases split: sum.splits dest: ref_apply_facts ref_apply_lost)
next
  fix s s' :: ref_state and c :: "'c gctx" and k xr
  assume "ref_ok s" "et_Get ref_etcd c k s = (xr, s')"
  then show "ref_ok s' \<and> ref_view s' = ref_view s \<and> (case xr of Inl e \<Rightarrow> True
      | Inr xs \<Rightarrow> xs = (case ev_kvs (ref_view s) k of None \<Rightarrow> [] | Some x \<Rightarrow> [x]))"
    by (auto simp: ref_etcd_def ref_view_def elim!: ref_call_cases)
next
  fix s s' :: ref_state and c :: "'c gctx" and p xr
  assume "ref_ok s" "et_GetPrefix ref_etcd c p s = (xr, s')"
  then show "ref_ok s' \<and> ref_view s' = ref_view s \<and> (case xr of Inl e \<Rightarrow> True
      | Inr xs \<Rightarrow> set xs = prefix_kvs (ref_view s) p \<and> sorted (map kv_key xs) \<and> distinct (map kv_key xs))"
    by (auto simp: ref_etcd_def ref_prefix_facts sorted_filter distinct_map_filter ref_ok_def
        simp del: set_filter elim!: ref_call_cases)
next
  fix s s' :: ref_state and c :: "'c gctx" and cmp op tr
  assume ok: "ref_ok s" and "et_Txn ref_etcd c cmp op s = (tr, s')"
  then have "ref_call (ref_txn cmp op) s = (tr, s')" by (simp add: ref_etcd_def)
  then show "ref_ok s' \<and> txn_outcome tr cmp op (ref_view s) (ref_view s')" using ok
  proof (cases rule: ref_call_cases)
    case (clean s1)
    then show ?thesis using ref_txn_facts [of s1 cmp op tr s'] by simp
  next
    case (lost s1)
    then show ?thesis using ref_txn_lost [of s1 cmp op] by simp
  next
    case skipped
    then show ?thesis by (simp add: txn_outcome_def)
  qed
qed (rule ref_ok_wf)

interpretation ref: etcd_up ref_etcd ref_view ref_ok ref_up
proof unfold_locales
  fix s :: ref_state and c :: "'c gctx" and cmp op
  assume "ref_ok s" "ref_up s" "op_allowed (ref_view s) op \<or> \<not> cmp_holds (ref_view s) cmp"
  then show "(\<exists>x. fst (et_Txn ref_etcd c cmp op s) = Inr x) \<and> ref_up (snd (et_Txn ref_etcd c cmp op s))"
    by (cases op) (auto simp: ref_etcd_def ref_call_up ref_txn_def ref_up_def ref_view_def ref_put_def ref_delete_def)
qed (auto simp: ref_etcd_def ref_call_up)

lemma ref_init_ok [simp]: "ref_ok (ref_init fs)"
  by (simp add: ref_ok_def ref_init_def)

lemma ref_init_up [simp]: "ref_up (ref_init [])"
  by (simp add: ref_up_def ref_init_def)

end
