(* ===== verification/Membership.thy ===== *)
theory Membership
  imports Etcd EtcdRef
begin

section \<open>Membership: liveness registration under a lease (routing/membership.go)\<close>

text \<open>
  A node's membership as a record, the join with its two clean-up paths, the keepalive goroutine
  as a fold over the events it sees, the two ways to leave, and the member listing. Clock readings
  (\<open>time.Now().UnixNano()\<close>) are arguments. \<open>members_view\<close> is what the store holds under the
  member prefix.
\<close>

record membership =
  m_prefix :: string
  m_nodeID :: nodeid
  m_leaseID :: lease_id
  m_lastKeepAlive :: nanos   \<comment> \<open>unix-nanos of the last successful lease keepalive\<close>
  m_kaCancelled :: bool      \<comment> \<open>\<open>cancelKeepAlive\<close> was called\<close>
  m_closing :: bool
  m_lost :: bool             \<comment> \<open>the \<open>lost\<close> channel is closed\<close>
  m_kaDone :: bool           \<comment> \<open>the keepalive goroutine has left its loop\<close>

definition Fresh :: "membership \<Rightarrow> nanos \<Rightarrow> nanos \<Rightarrow> bool" where
  "Fresh m window now =
     (let last = m_lastKeepAlive m in if last = 0 then False else now - last < window)"

definition membersPrefix :: "string \<Rightarrow> string" where
  "membersPrefix prefix = path_Join [prefix, ''members''] @ ''/''"

definition JoinMembership :: "('s, 'c, 'e) etcd \<Rightarrow> 'c gctx \<Rightarrow> string \<Rightarrow> nodeid \<Rightarrow> int \<Rightarrow> nanos \<Rightarrow> 's
    \<Rightarrow> ('e + membership) \<times> 's" where
  "JoinMembership E ctx prefix nodeID ttlSeconds now s =
     (case et_Grant E ctx ttlSeconds s of
        (Inl err, s1) \<Rightarrow> (Inl err, s1)
      | (Inr lease, s1) \<Rightarrow>
          (case et_Put E ctx (membersPrefix prefix @ nodeID) [] lease s1 of
             (Inl err, s2) \<Rightarrow> (Inl err, snd (et_Revoke E Background lease s2))
           | (Inr _, s2) \<Rightarrow>
               (case et_KeepAlive E (WithCancel Background) lease s2 of
                  (Inl err, s3) \<Rightarrow> (Inl err, snd (et_Revoke E Background lease s3))
                | (Inr _, s3) \<Rightarrow>
                    (Inr \<lparr>m_prefix = prefix, m_nodeID = nodeID, m_leaseID = lease, m_lastKeepAlive = now,
                          m_kaCancelled = False, m_closing = False, m_lost = False, m_kaDone = False\<rparr>, s3))))"

text \<open>What the keepalive goroutine and the owner of the membership do to it: a renewal response,
  the keepalive channel closing, a deliberate departure.\<close>

datatype member_event = KaResponse nanos | KaChannelClosed | Departing

fun member_step :: "membership \<Rightarrow> member_event \<Rightarrow> membership" where
  "member_step m (KaResponse t) = (if m_kaDone m then m else m\<lparr>m_lastKeepAlive := t\<rparr>)"
| "member_step m KaChannelClosed =
     (if m_kaDone m then m
      else if \<not> m_closing m then m\<lparr>m_kaDone := True, m_lost := True\<rparr> else m\<lparr>m_kaDone := True\<rparr>)"
| "member_step m Departing = m\<lparr>m_closing := True, m_kaCancelled := True\<rparr>"

definition member_run :: "membership \<Rightarrow> member_event list \<Rightarrow> membership" where
  "member_run m evs = foldl member_step m evs"

definition Lost :: "membership \<Rightarrow> bool" where
  "Lost m = m_lost m"

definition LeaseID :: "membership \<Rightarrow> lease_id" where
  "LeaseID m = m_leaseID m"

definition Membership_Close :: "('s, 'c, 'e) etcd \<Rightarrow> membership \<Rightarrow> 's \<Rightarrow> membership \<times> 's" where
  "Membership_Close E m s =
     (member_step m Departing, snd (et_Revoke E Background (m_leaseID m) s))"

definition Membership_simulateCrash :: "membership \<Rightarrow> membership" where
  "Membership_simulateCrash m = member_step m Departing"

definition ListMembers :: "('s, 'c, 'e) etcd \<Rightarrow> 'c gctx \<Rightarrow> string \<Rightarrow> 's \<Rightarrow> ('e + string list) \<times> 's" where
  "ListMembers E ctx prefix s =
     (let mp = membersPrefix prefix
      in case et_GetPrefix E ctx mp s of
           (Inl err, s1) \<Rightarrow> (Inl err, s1)
         | (Inr kvs, s1) \<Rightarrow> (Inr (map (\<lambda>kv. strings_TrimPrefix (kv_key kv) mp) kvs), s1))"

definition members_view :: "etcd_view \<Rightarrow> string \<Rightarrow> string set" where
  "members_view v prefix = {n. \<exists>x. ev_kvs v (membersPrefix prefix @ n) = Some x}"

subsection \<open>Listing members\<close>

lemma append_le_iff: "(p @ a \<le> p @ b) = (a \<le> (b :: 'a::linorder list))"
  by (induction p) auto

lemma sorted_map_append: "sorted (map (\<lambda>x. p @ f x) xs) = sorted (map f (xs :: 'b list))"
  for p :: "'a::linorder list"
  by (induction xs) (auto simp: append_le_iff)

lemma lease_gone: "lease_ended l v v' \<Longrightarrow> ev_kvs v' k = Some x \<Longrightarrow> ev_kvs v k = Some x \<and> kv_lease x \<noteq> l"
  by (auto simp: lease_ended_def kvs_without_Some)

context etcd_kv
begin

lemma ListMembers_law:
  assumes "ok s" "ListMembers E c prefix s = (r, s')"
  shows "ok s' \<and> view s' = view s
    \<and> (case r of Inl e \<Rightarrow> True | Inr ms \<Rightarrow> ms = sorted_list_of_set (members_view (view s) prefix)
          \<and> set ms = members_view (view s) prefix \<and> distinct ms)"
proof -
  let ?mp = "membersPrefix prefix"
  obtain r0 s0 where g: "et_GetPrefix E c ?mp s = (r0, s0)" by force
  note law = get_prefix [OF assms(1) g]
  show ?thesis
  proof (cases r0)
    case (Inl e)
    then show ?thesis using law assms(2) g by (auto simp: ListMembers_def)
  next
    case (Inr kvs)
    have res: "r = Inr (map (\<lambda>kv. strings_TrimPrefix (kv_key kv) ?mp) kvs)" "s' = s0"
      using assms(2) g Inr by (simp_all add: ListMembers_def Let_def)
    have kvs: "set kvs = prefix_kvs (view s) ?mp" "sorted (map kv_key kvs)" "distinct (map kv_key kvs)"
      using law Inr by simp_all
    have key: "ev_kvs (view s) (kv_key x) = Some x \<and> kv_key x = ?mp @ strings_TrimPrefix (kv_key x) ?mp"
      if "x \<in> set kvs" for x
      using that kvs(1) ok_wf [OF assms(1)] by (fastforce simp: prefix_kvs_def wf_view_def HasPrefix_iff)
    let ?ms = "map (\<lambda>kv. strings_TrimPrefix (kv_key kv) ?mp) kvs"
    have keys: "map kv_key kvs = map (\<lambda>x. ?mp @ strings_TrimPrefix (kv_key x) ?mp) kvs"
      using key by simp
    have srt: "sorted ?ms"
      using kvs(2) unfolding keys sorted_map_append .
    have "map kv_key kvs = map ((@) ?mp) ?ms"
      using keys by (simp add: comp_def)
    then have dst: "distinct ?ms" using kvs(3) by (metis distinct_map)
    have st: "set ?ms = members_view (view s) prefix"
    proof
      show "set ?ms \<subseteq> members_view (view s) prefix"
        using key by (fastforce simp: members_view_def)
      show "members_view (view s) prefix \<subseteq> set ?ms"
      proof
        fix n assume "n \<in> members_view (view s) prefix"
        then obtain x where x: "ev_kvs (view s) (?mp @ n) = Some x" by (auto simp: members_view_def)
        then have "x \<in> set kvs" "kv_key x = ?mp @ n"
          using kvs(1) ok_wf [OF assms(1)] by (auto simp: prefix_kvs_def wf_view_def)
        then show "n \<in> set ?ms" by force
      qed
    qed
    have "?ms = sorted_list_of_set (members_view (view s) prefix)"
      using srt dst st sorted_list_of_set_sort_remdups [of ?ms] by (simp add: sorted_sort_id distinct_remdups_id)
    then show ?thesis using law res st dst by simp
  qed
qed

lemma put_facts:
  assumes "ok s" "et_Put E c k x l s = (r, s')" "l \<noteq> 0"
  shows "ok s' \<and> (view s' = view s \<or> view s' = apply_op (view s) (OpPut k x l))
    \<and> (\<forall>u. r = Inr u \<longrightarrow> l \<in> ev_leases (view s) \<and> view s' = apply_op (view s) (OpPut k x l))"
  using put [OF assms(1,2)] assms(3) by (auto split: sum.splits)

lemma Join_success:
  assumes "ok s" "JoinMembership E c p n ttl now s = (Inr m, s')"
  shows "ok s' \<and> m_leaseID m \<noteq> 0 \<and> m_leaseID m \<notin> ev_leases (view s)
    \<and> view s' = apply_op ((view s)\<lparr>ev_leases := insert (m_leaseID m) (ev_leases (view s))\<rparr>)
        (OpPut (membersPrefix p @ n) [] (m_leaseID m))
    \<and> m = \<lparr>m_prefix = p, m_nodeID = n, m_leaseID = m_leaseID m, m_lastKeepAlive = now,
          m_kaCancelled = False, m_closing = False, m_lost = False, m_kaDone = False\<rparr>"
proof -
  let ?k = "membersPrefix p @ n"
  obtain r1 s1 where g: "et_Grant E c ttl s = (r1, s1)" by force
  then obtain l where r1: "r1 = Inr l" using assms(2) by (cases r1) (auto simp: JoinMembership_def)
  note gr = grant [OF assms(1) g, unfolded r1, simplified]
  obtain r2 s2 where pt: "et_Put E c ?k [] l s1 = (r2, s2)" by force
  then obtain u where r2: "r2 = Inr u" using assms(2) g r1 by (cases r2) (auto simp: JoinMembership_def)
  have p2: "ok s2" "view s2 = apply_op (view s1) (OpPut ?k [] l)"
    using put_facts [OF _ pt] gr r2 by auto
  obtain r3 s3 where ka: "et_KeepAlive E (WithCancel Background) l s2 = (r3, s3)" by force
  then obtain u' where r3: "r3 = Inr u'"
    using assms(2) g r1 pt r2 by (cases r3) (auto simp: JoinMembership_def)
  have s3: "s' = s3" "m = \<lparr>m_prefix = p, m_nodeID = n, m_leaseID = l, m_lastKeepAlive = now,
      m_kaCancelled = False, m_closing = False, m_lost = False, m_kaDone = False\<rparr>"
    using assms(2) g r1 pt r2 ka r3 by (simp_all add: JoinMembership_def)
  have v1: "view s1 = (view s)\<lparr>ev_leases := insert l (ev_leases (view s))\<rparr>" using gr by simp
  have "view s2 = apply_op ((view s)\<lparr>ev_leases := insert l (ev_leases (view s))\<rparr>) (OpPut ?k [] l)"
    using p2(2) by (simp only: v1)
  then show ?thesis using keepalive [OF p2(1) ka] s3 gr by (simp del: apply_op.simps)
qed

text \<open>A failed join ends with an attempt to revoke its own fresh lease, or never had one.\<close>

lemma Join_failure:
  assumes "ok s" "JoinMembership E c p n ttl now s = (Inl e, s')"
  shows "ev_kvs (view s') = ev_kvs (view s)
    \<or> (\<exists>l t r. ok t \<and> et_Revoke E Background l t = (r, s') \<and> l \<notin> ev_leases (view s)
         \<and> (ev_kvs (view t) = ev_kvs (view s)
            \<or> ev_kvs (view t) = (ev_kvs (view s))(membersPrefix p @ n \<mapsto>
                put_kv (view s) (membersPrefix p @ n) [] l)))"
proof -
  let ?k = "membersPrefix p @ n"
  obtain r1 s1 where g: "et_Grant E c ttl s = (r1, s1)" by force
  show ?thesis
  proof (cases r1)
    case (Inl e1)
    then show ?thesis using assms(2) g grant [OF assms(1) g] by (auto simp: JoinMembership_def)
  next
    case (Inr l)
    note gr = grant [OF assms(1) g, unfolded Inr, simplified]
    obtain r2 s2 where pt: "et_Put E c ?k [] l s1 = (r2, s2)" by force
    have p2: "ok s2" "view s2 = view s1 \<or> view s2 = apply_op (view s1) (OpPut ?k [] l)"
      using put_facts [OF _ pt] gr by auto
    have pk: "put_kv (view s1) ?k [] l = put_kv (view s) ?k [] l"
      using gr by (simp add: put_kv_def split: option.split)
    have kvs: "ev_kvs (view s2) = ev_kvs (view s) \<or> ev_kvs (view s2) = (ev_kvs (view s))(?k \<mapsto> put_kv (view s) ?k [] l)"
      using p2(2) gr pk by auto
    obtain r3 s3 where ka: "et_KeepAlive E (WithCancel Background) l s2 = (r3, s3)" by force
    have k3: "ok s3" "view s3 = view s2" using keepalive [OF p2(1) ka] by simp_all
    have "\<exists>t \<in> {s2, s3}. s' = snd (et_Revoke E Background l t)"
      using assms(2) g Inr pt ka by (auto simp: JoinMembership_def split: sum.splits)
    then obtain t r where t: "t \<in> {s2, s3}" "et_Revoke E Background l t = (r, s')"
      by (metis prod.collapse)
    then have "ok t" "ev_kvs (view t) = ev_kvs (view s2)" using p2(1) k3 by auto
    then show ?thesis using t(2) kvs gr by metis
  qed
qed

lemma Join_failure_members:
  assumes "ok s" "JoinMembership E c p n ttl now s = (Inl e, s')" "n \<notin> members_view (view s) p"
  shows "members_view (view s') p \<subseteq> members_view (view s) p
    \<or> (\<exists>l t err'. et_Revoke E Background l t = (Inl err', s'))"
  using Join_failure [OF assms(1,2)]
proof (elim disjE exE conjE)
  assume "ev_kvs (view s') = ev_kvs (view s)"
  then show ?thesis by (simp add: members_view_def)
next
  fix l t r
  assume t: "ok t" "et_Revoke E Background l t = (r, s')"
    and kvs: "ev_kvs (view t) = ev_kvs (view s)"
  then have "r = Inr () \<Longrightarrow> lease_ended l (view t) (view s')" using revoke [OF t] by simp
  then show ?thesis
    using t kvs by (cases r) (auto simp: members_view_def dest: lease_gone)
next
  fix l t r
  assume t: "ok t" "et_Revoke E Background l t = (r, s')"
    and kvs: "ev_kvs (view t) = (ev_kvs (view s))(membersPrefix p @ n \<mapsto> put_kv (view s) (membersPrefix p @ n) [] l)"
  then have "r = Inr () \<Longrightarrow> lease_ended l (view t) (view s')" using revoke [OF t] by simp
  then show ?thesis
    using t kvs by (cases r) (auto simp: members_view_def put_kv_def dest!: lease_gone split: if_splits)
qed

end

subsection \<open>Properties of membership\<close>

text \<open>C15: a successful join registers the node under a lease that did not exist before: the
  member key is bound to that lease, the member set grows by exactly this node, and the fresh
  membership passes the freshness gate for any positive window at the time of joining.\<close>

theorem JoinMembership_registers:
  assumes "etcd_kv E view ok" and "ok s"
    and "JoinMembership E ctx p n ttl now s = (Inr m, s')"
  shows "LeaseID m \<notin> ev_leases (view s) \<and> LeaseID m \<in> ev_leases (view s')
    \<and> map_option kv_lease (ev_kvs (view s') (membersPrefix p @ n)) = Some (LeaseID m)
    \<and> members_view (view s') p = insert n (members_view (view s) p)
    \<and> \<not> Lost m \<and> (now \<noteq> 0 \<and> 0 < window \<longrightarrow> Fresh m window now)"
proof -
  note j = etcd_kv.Join_success [OF assms]
  then have "m_lastKeepAlive m = now" "\<not> m_lost m" by (metis membership.select_convs)+
  then show ?thesis
    using j by (auto simp: members_view_def put_kv_def LeaseID_def Lost_def Fresh_def Let_def)
qed

theorem JoinMembership_registers_witness:
  "\<exists>m s'. JoinMembership ref_etcd (Background :: unit gctx) ''cat'' ''node-1'' 3 100 (ref_init []) = (Inr m, s')
     \<and> members_view (ref_view s') ''cat'' = insert ''node-1'' (members_view (ref_view (ref_init [])) ''cat'')
     \<and> Fresh m 1 100"
proof -
  have "\<not> isl (fst (JoinMembership ref_etcd (Background :: unit gctx) ''cat'' ''node-1'' 3 100 (ref_init [])))"
    by code_simp
  then obtain m s' where j:
    "JoinMembership ref_etcd (Background :: unit gctx) ''cat'' ''node-1'' 3 100 (ref_init []) = (Inr m, s')"
    by (metis prod.collapse sum.collapse(2))
  show ?thesis
    using JoinMembership_registers [OF ref.etcd_kv_axioms _ j, of 1] j by auto
qed



subsection \<open>The keepalive goroutine\<close>

lemma member_run_simps [simp]:
  "member_run m [] = m"
  "member_run m (e # evs) = member_run (member_step m e) evs"
  by (simp_all add: member_run_def)

lemma member_run_append: "member_run m (as @ bs) = member_run (member_run m as) bs"
  by (simp add: member_run_def)

lemma member_step_done: "m_kaDone m \<Longrightarrow> m_kaDone (member_step m e) \<and>
    m_lost (member_step m e) = m_lost m \<and> m_lastKeepAlive (member_step m e) = m_lastKeepAlive m"
  by (cases e) auto

lemma member_run_done: "m_kaDone m \<Longrightarrow> m_lost (member_run m evs) = m_lost m
    \<and> m_lastKeepAlive (member_run m evs) = m_lastKeepAlive m"
  by (induction evs arbitrary: m) (auto simp: member_step_done)

lemma member_run_lost:
  assumes "\<not> m_kaDone m" "\<not> m_lost m"
  shows "m_lost (member_run m evs) \<longleftrightarrow> \<not> m_closing m \<and> KaChannelClosed \<in> set evs
    \<and> Departing \<notin> set (takeWhile (\<lambda>e. e \<noteq> KaChannelClosed) evs)"
  using assms
proof (induction evs arbitrary: m)
  case Nil
  then show ?case by simp
next
  case (Cons e evs)
  show ?case
  proof (cases e)
    case (KaResponse t)
    then show ?thesis using Cons.IH [of "m\<lparr>m_lastKeepAlive := t\<rparr>"] Cons.prems by simp
  next
    case KaChannelClosed
    then show ?thesis using Cons.prems by (simp add: member_run_done)
  next
    case Departing
    then show ?thesis
      using Cons.IH [of "member_step m Departing"] Cons.prems by simp
  qed
qed

text \<open>C26: the loss of the lease is reported exactly when it is a loss: from a joined membership,
  \<open>Lost\<close> fires iff the keepalive channel closes before any deliberate departure (\<open>Close\<close> or
  \<open>simulateCrash\<close>), in whatever order the events interleave.\<close>

theorem Lost_iff_unexpected:
  assumes "\<not> m_kaDone m" and "\<not> m_lost m" and "\<not> m_closing m"
  shows "Lost (member_run m evs) \<longleftrightarrow> KaChannelClosed \<in> set evs
    \<and> Departing \<notin> set (takeWhile (\<lambda>e. e \<noteq> KaChannelClosed) evs)"
  using member_run_lost [OF assms(1,2)] assms(3) by (simp add: Lost_def)

definition joined_member :: membership where
  "joined_member = \<lparr>m_prefix = ''cat'', m_nodeID = ''node-1'', m_leaseID = 1, m_lastKeepAlive = 100,
     m_kaCancelled = False, m_closing = False, m_lost = False, m_kaDone = False\<rparr>"

theorem Lost_iff_unexpected_witness:
  "Lost (member_run joined_member [KaResponse 150, KaChannelClosed, Departing])
   \<and> \<not> Lost (member_run joined_member [KaResponse 150, Departing, KaChannelClosed])"
  using Lost_iff_unexpected [of joined_member "[KaResponse 150, KaChannelClosed, Departing]"]
    Lost_iff_unexpected [of joined_member "[KaResponse 150, Departing, KaChannelClosed]"]
  by (simp add: joined_member_def)

text \<open>C13: once the keepalive channel has closed the membership goes stale for good: no later
  event refreshes it, so from the last response on it is fresh for less than one window.\<close>

theorem stale_after_channel_closed:
  assumes "m' = member_run m (pre @ KaChannelClosed # post)"
    and "m_lastKeepAlive (member_run m pre) + window \<le> now"
  shows "\<not> Fresh m' window now"
proof -
  let ?m = "member_step (member_run m pre) KaChannelClosed"
  have "m_kaDone ?m" "m_lastKeepAlive ?m = m_lastKeepAlive (member_run m pre)" by auto
  then have "m_lastKeepAlive m' = m_lastKeepAlive (member_run m pre)"
    using assms(1) by (simp add: member_run_append member_run_done)
  then show ?thesis using assms(2) by (simp add: Fresh_def Let_def)
qed

theorem stale_after_channel_closed_witness:
  "\<not> Fresh (member_run joined_member ([KaResponse 150] @ KaChannelClosed # [KaResponse 900])) 50 1000
   \<and> Fresh (member_run joined_member [KaResponse 150]) 50 199"
  using stale_after_channel_closed [OF refl, of joined_member "[KaResponse 150]" 50 1000 "[KaResponse 900]"]
  by (simp add: joined_member_def Fresh_def)

text \<open>C14: a graceful close whose revoke returns takes the member and every other key of the
  lease out of the store at once, and leaves every key of other leases alone.\<close>

theorem Membership_Close_leaves:
  assumes "etcd_kv E view ok" and "ok s"
    and "fst (et_Revoke E Background (LeaseID m) s) = Inr ()"
    and "Membership_Close E m s = (m', s')"
  shows "ev_kvs (view s') = kvs_without (LeaseID m) (ev_kvs (view s))
    \<and> LeaseID m \<notin> ev_leases (view s') \<and> (\<not> m_kaDone m \<and> \<not> Lost m \<longrightarrow> \<not> Lost (member_run m' evs))"
proof -
  obtain u where rv: "et_Revoke E Background (m_leaseID m) s = (Inr u, s')"
    using assms(3,4) by (auto simp: Membership_Close_def LeaseID_def prod_eq_iff)
  have "lease_ended (m_leaseID m) (view s) (view s')"
    using etcd_kv.revoke [OF assms(1,2) rv] by simp
  moreover have "m' = member_step m Departing" using assms(4) by (simp add: Membership_Close_def)
  ultimately show ?thesis
    by (auto simp: lease_ended_def LeaseID_def Lost_def member_run_lost)
qed

theorem Membership_Close_leaves_witness:
  "\<exists>m' s'. Membership_Close (ref_etcd :: (ref_state, unit, ref_err) etcd) joined_member (ref_init []) = (m', s')
    \<and> LeaseID joined_member \<notin> ev_leases (ref_view s') \<and> \<not> Lost (member_run m' [KaChannelClosed])"
proof -
  obtain m' s' where c:
    "Membership_Close (ref_etcd :: (ref_state, unit, ref_err) etcd) joined_member (ref_init []) = (m', s')"
    by force
  have r: "fst (et_Revoke ref_etcd (Background :: unit gctx) (LeaseID joined_member) (ref_init [])) = Inr ()"
    by code_simp
  from Membership_Close_leaves [OF ref.etcd_kv_axioms _ r c, of "[KaChannelClosed]"] c
  show ?thesis by (auto simp: joined_member_def Lost_def)
qed

end
