(* ===== verification/Placement.thy ===== *)
theory Placement
  imports GoStd
begin

unbundle bit_operations_syntax

section \<open>Placement: shard slots and rendezvous hashing (routing/placement.go)\<close>

text \<open>
  \<open>ShardCount\<close>, \<open>ShardOf\<close>, \<open>Rendezvous\<close> and \<open>weight\<close> of \<^verbatim>\<open>routing/placement.go\<close>. The xxhash
  package is a parameter \<open>xx\<close>: the 64-bit sum of a byte sequence. A digest that is written to
  piecewise sums the concatenation of what was written, so \<open>weight\<close> applies \<open>xx\<close> to the member's
  bytes followed by the shard's eight little-endian bytes.
  The lemmas show that the loop picks the first member of highest weight, what that means when
  members leave, join or are listed in another order, and that no two (member, shard) pairs are
  hashed over the same bytes.
\<close>

type_synonym hash64 = "8 word list \<Rightarrow> 64 word"

definition ShardCount :: int where
  "ShardCount = 256"

definition string_bytes :: "string \<Rightarrow> 8 word list" where
  "string_bytes s = map (\<lambda>c. word_of_nat (of_char c)) s"

definition ShardOf :: "hash64 \<Rightarrow> string \<Rightarrow> shard" where
  "ShardOf xx namespace = sint (xx (string_bytes namespace) mod word_of_int ShardCount)"

text \<open>The eight bytes \<open>b[i] = byte(u >> (8 * i))\<close> of \<open>u = uint64(shard)\<close>.\<close>

definition shard_bytes :: "shard \<Rightarrow> 8 word list" where
  "shard_bytes shard = (let u = word_of_int shard :: 64 word
     in map (\<lambda>i. ucast (drop_bit (8 * i) u)) [0..<8])"

definition weight_input :: "string \<Rightarrow> shard \<Rightarrow> 8 word list" where
  "weight_input member shard = string_bytes member @ shard_bytes shard"

definition weight :: "hash64 \<Rightarrow> string \<Rightarrow> shard \<Rightarrow> 64 word" where
  "weight xx member shard = xx (weight_input member shard)"

fun rendezvous_loop :: "hash64 \<Rightarrow> shard \<Rightarrow> string \<Rightarrow> 64 word \<Rightarrow> string list \<Rightarrow> string" where
  "rendezvous_loop xx shard best bestScore [] = best"
| "rendezvous_loop xx shard best bestScore (m # ms) =
     (let score = weight xx m shard
      in if best = [] \<or> score > bestScore then rendezvous_loop xx shard m score ms
         else rendezvous_loop xx shard best bestScore ms)"

definition Rendezvous :: "hash64 \<Rightarrow> shard \<Rightarrow> string list \<Rightarrow> string" where
  "Rendezvous xx shard members = rendezvous_loop xx shard [] 0 members"

text \<open>A concrete 64-bit hash (FNV-1a), to evaluate the definitions on.\<close>

definition fnv64 :: hash64 where
  "fnv64 bs = foldl (\<lambda>h b. (h XOR ucast b) * 1099511628211) 14695981039346656037 bs"

text \<open>All shard slots, in the order of the loops \<open>for s := 0; s < ShardCount; s++\<close>.\<close>

definition shards :: "shard list" where
  "shards = [0..ShardCount - 1]"

text \<open>The specification: the first element of highest weight.\<close>

definition first_max :: "('a \<Rightarrow> 'b::linorder) \<Rightarrow> 'a list \<Rightarrow> 'a \<Rightarrow> bool" where
  "first_max w xs r = (r \<in> set xs \<and> (\<forall>x \<in> set xs. w x \<le> w r)
     \<and> (\<forall>x \<in> set (takeWhile (\<lambda>x. x \<noteq> r) xs). w x < w r))"

subsection \<open>First maxima\<close>

lemma first_max_mem: "first_max w xs r \<Longrightarrow> r \<in> set xs"
  by (simp add: first_max_def)

lemma first_max_ge: "first_max w xs r \<Longrightarrow> x \<in> set xs \<Longrightarrow> w x \<le> w r"
  by (simp add: first_max_def)

lemma first_max_Nil [simp]: "\<not> first_max w [] r"
  by (simp add: first_max_def)

lemma first_max_Cons:
  "first_max w (x # xs) r \<longleftrightarrow>
     (if x = r then (\<forall>y \<in> set xs. w y \<le> w r) else w x < w r \<and> first_max w xs r)"
  by (cases "x = r") (auto simp: first_max_def)

lemma first_max_keep: "first_max w (x # xs) r \<Longrightarrow> w y \<le> w x \<Longrightarrow> first_max w (x # y # xs) r"
  by (auto simp: first_max_Cons split: if_splits)

lemma first_max_skip: "first_max w (y # xs) r \<Longrightarrow> w x < w y \<Longrightarrow> first_max w (x # y # xs) r"
  by (auto simp: first_max_Cons split: if_splits)

lemma first_max_unique: "first_max w xs r \<Longrightarrow> first_max w xs r' \<Longrightarrow> r = r'"
proof (induction xs)
  case Nil
  then show ?case by simp
next
  case (Cons x xs)
  then show ?case
    by (auto simp: first_max_Cons split: if_splits dest: first_max_mem dest!: bspec)
qed

lemma first_max_filter: "first_max w xs r \<Longrightarrow> P r \<Longrightarrow> first_max w (filter P xs) r"
  by (induction xs) (auto simp: first_max_Cons split: if_splits)

subsection \<open>The loop of Rendezvous\<close>

lemma rendezvous_loop_first_max:
  assumes "best \<noteq> []" "[] \<notin> set ms"
  shows "first_max (\<lambda>m. weight xx m s) (best # ms) (rendezvous_loop xx s best (weight xx best s) ms)"
  using assms
proof (induction ms arbitrary: best)
  case Nil
  show ?case by (simp add: first_max_Cons)
next
  case (Cons m ms)
  show ?case
  proof (cases "weight xx m s > weight xx best s")
    case True
    have "first_max (\<lambda>m. weight xx m s) (m # ms) (rendezvous_loop xx s m (weight xx m s) ms)"
      using Cons by auto
    then show ?thesis using True Cons.prems(1) by (simp add: first_max_skip Let_def)
  next
    case False
    have "first_max (\<lambda>m. weight xx m s) (best # ms) (rendezvous_loop xx s best (weight xx best s) ms)"
      using Cons by auto
    then show ?thesis using False Cons.prems(1) by (simp add: first_max_keep Let_def)
  qed
qed

lemma Rendezvous_Nil [simp]: "Rendezvous xx s [] = []"
  by (simp add: Rendezvous_def)

lemma Rendezvous_is_first_max:
  assumes "ms \<noteq> []" "[] \<notin> set ms"
  shows "first_max (\<lambda>m. weight xx m s) ms (Rendezvous xx s ms)"
proof (cases ms)
  case Nil
  then show ?thesis using assms by simp
next
  case (Cons m ms')
  then show ?thesis
    using rendezvous_loop_first_max [of m ms' xx s] assms by (auto simp: Rendezvous_def Let_def)
qed

lemma Rendezvous_mem: "ms \<noteq> [] \<Longrightarrow> [] \<notin> set ms \<Longrightarrow> Rendezvous xx s ms \<in> set ms"
  by (rule first_max_mem [OF Rendezvous_is_first_max])

lemma Rendezvous_Nil_iff: "[] \<notin> set ms \<Longrightarrow> Rendezvous xx s ms = [] \<longleftrightarrow> ms = []"
  using Rendezvous_mem by (metis Rendezvous_Nil)

lemma Rendezvous_eqI:
  assumes "[] \<notin> set ms" "first_max (\<lambda>m. weight xx m s) ms r"
  shows "Rendezvous xx s ms = r"
proof -
  have "ms \<noteq> []" using assms(2) by (auto simp: first_max_def)
  then show ?thesis using Rendezvous_is_first_max assms first_max_unique by metis
qed

lemma Rendezvous_filter:
  assumes "[] \<notin> set ms" "ms \<noteq> []" "P (Rendezvous xx s ms)"
  shows "Rendezvous xx s (filter P ms) = Rendezvous xx s ms"
  using assms by (intro Rendezvous_eqI first_max_filter Rendezvous_is_first_max) auto

lemma shards_set [simp]: "set shards = {0..<256}"
  by (auto simp: shards_def ShardCount_def)

lemma replicate_slot: "0 \<le> s \<Longrightarrow> s < 256 \<Longrightarrow> replicate 256 z ! nat s = z"
  by (subst nth_replicate) auto

lemma shards_distinct [simp]: "distinct shards"
  by (simp add: shards_def)

lemma shards_sorted [simp]: "sorted shards"
  by (simp add: shards_def)

lemma shards_int64: "s \<in> set shards \<Longrightarrow> int64_range s"
  by (simp add: int64_range_def)

subsection \<open>Bytes that are hashed\<close>

lemma string_bytes_inj: "string_bytes s = string_bytes t \<Longrightarrow> s = t"
proof (induction s arbitrary: t)
  case Nil
  then show ?case by (simp add: string_bytes_def)
next
  case (Cons c s)
  then obtain d t' where t: "t = d # t'" by (cases t) (auto simp: string_bytes_def)
  then have "(word_of_nat (of_char c) :: 8 word) = word_of_nat (of_char d)" "string_bytes s = string_bytes t'"
    using Cons.prems by (simp_all add: string_bytes_def)
  then have "unat (word_of_nat (of_char c) :: 8 word) = unat (word_of_nat (of_char d) :: 8 word)" by simp
  then have "(of_char c :: nat) = of_char d"
    by (simp add: unat_of_nat)
  then have "char_of (of_char c :: nat) = (char_of (of_char d :: nat) :: char)" by simp
  then have "c = d" by simp
  then show ?case using Cons.IH [OF \<open>string_bytes s = string_bytes t'\<close>] t by simp
qed

lemma shard_bytes_length [simp]: "length (shard_bytes s) = 8"
  by (simp add: shard_bytes_def Let_def)

lemma shard_bytes_inj:
  assumes "int64_range s" "int64_range t" "shard_bytes s = shard_bytes t"
  shows "s = t"
proof -
  let ?u = "word_of_int s :: 64 word" and ?v = "word_of_int t :: 64 word"
  have b: "(ucast (drop_bit (8 * i) ?u) :: 8 word) = ucast (drop_bit (8 * i) ?v)" if "i < 8" for i
    using assms(3) that by (simp add: shard_bytes_def Let_def)
  have "bit ?u n = bit ?v n" if "n < 64" for n
  proof -
    have "n div 8 < 8" "8 * (n div 8) + n mod 8 = n" using that by auto
    then show ?thesis
      using arg_cong [OF b [of "n div 8"], of "\<lambda>w. bit w (n mod 8)"]
      by (simp add: bit_ucast_iff bit_drop_bit_eq)
  qed
  then have "?u = ?v" by (intro bit_word_eqI) simp
  then have "sint ?u = sint ?v" by simp
  then show ?thesis
    using assms(1,2) by (simp add: int64_range_def signed_of_int signed_take_bit_int_eq_self)
qed

subsection \<open>Properties of placement\<close>

text \<open>C1: \<open>Rendezvous\<close> returns the first member in the list whose weight for the shard is the
  highest; ties go to the member listed first.\<close>

theorem Rendezvous_first_highest:
  assumes "ms \<noteq> []" and "[] \<notin> set ms"
  shows "first_max (\<lambda>m. weight xx m s) ms (Rendezvous xx s ms)"
  by (rule Rendezvous_is_first_max [OF assms])

theorem Rendezvous_first_highest_witness:
  "first_max (\<lambda>m. weight fnv64 m 5) [''node-3'', ''node-1'', ''node-2'']
     (Rendezvous fnv64 5 [''node-3'', ''node-1'', ''node-2''])
   \<and> Rendezvous fnv64 5 [''node-3'', ''node-1'', ''node-2''] = ''node-1''"
proof
  show "first_max (\<lambda>m. weight fnv64 m 5) [''node-3'', ''node-1'', ''node-2'']
     (Rendezvous fnv64 5 [''node-3'', ''node-1'', ''node-2''])"
    by (rule Rendezvous_first_highest) simp_all
  show "Rendezvous fnv64 5 [''node-3'', ''node-1'', ''node-2''] = ''node-1''"
    by code_simp
qed

text \<open>C11: minimal reshuffle. When any set of members leaves (the members that do not satisfy
  \<open>stay\<close>), a shard whose rendezvous owner stays keeps that owner.\<close>

theorem Rendezvous_minimal_reshuffle:
  assumes "[] \<notin> set ms" and "stay (Rendezvous xx s ms)"
  shows "Rendezvous xx s (filter stay ms) = Rendezvous xx s ms"
  using assms by (cases "ms = []") (auto intro: Rendezvous_filter)

theorem Rendezvous_minimal_reshuffle_witness:
  "Rendezvous fnv64 5 (filter (\<lambda>m. m \<noteq> ''node-3'') [''node-1'', ''node-2'', ''node-3''])
     = Rendezvous fnv64 5 [''node-1'', ''node-2'', ''node-3'']"
proof (rule Rendezvous_minimal_reshuffle)
  show "Rendezvous fnv64 5 [''node-1'', ''node-2'', ''node-3''] \<noteq> ''node-3''"
    by code_simp
qed simp

text \<open>C30: when a member joins, at whatever place of the list, a shard either keeps its owner or
  moves to the new member; it never moves between old members.\<close>

theorem Rendezvous_join_moves_to_joiner:
  assumes "[] \<notin> set (as @ y # bs)" and "y \<notin> set (as @ bs)"
  shows "Rendezvous xx s (as @ y # bs) = y
    \<or> Rendezvous xx s (as @ y # bs) = Rendezvous xx s (as @ bs)"
proof (cases "Rendezvous xx s (as @ y # bs) = y")
  case False
  have "filter (\<lambda>m. m \<noteq> y) as = as" "filter (\<lambda>m. m \<noteq> y) bs = bs"
    using assms(2) by (auto intro!: filter_True)
  then have "filter (\<lambda>m. m \<noteq> y) (as @ y # bs) = as @ bs" by simp
  then show ?thesis
    using Rendezvous_filter [of "as @ y # bs" "\<lambda>m. m \<noteq> y" xx s] assms(1) False by simp
qed simp

theorem Rendezvous_join_moves_to_joiner_witness:
  "Rendezvous fnv64 0 ([''node-1''] @ ''node-3'' # [''node-2'']) = ''node-3''
    \<or> Rendezvous fnv64 0 ([''node-1''] @ ''node-3'' # [''node-2''])
      = Rendezvous fnv64 0 ([''node-1''] @ [''node-2''])"
  by (rule Rendezvous_join_moves_to_joiner) simp_all

text \<open>C29: with no two members of equal weight, the order in which the members are listed does
  not matter, so nodes that read the same member set agree on every owner.\<close>

theorem Rendezvous_order_independent:
  assumes "set ms = set ms'" and "[] \<notin> set ms"
    and "inj_on (\<lambda>m. weight xx m s) (set ms)"
  shows "Rendezvous xx s ms = Rendezvous xx s ms'"
proof (cases "ms = []")
  case False
  then have ne: "ms' \<noteq> []" "[] \<notin> set ms'" using assms(1,2) by auto
  let ?r = "Rendezvous xx s ms" and ?r' = "Rendezvous xx s ms'"
  have fm: "first_max (\<lambda>m. weight xx m s) ms ?r" "first_max (\<lambda>m. weight xx m s) ms' ?r'"
    by (rule Rendezvous_is_first_max [OF False assms(2)]) (rule Rendezvous_is_first_max [OF ne])
  have mem: "?r \<in> set ms" "?r' \<in> set ms"
    using fm [THEN first_max_mem] assms(1) by simp_all
  then have "weight xx ?r s = weight xx ?r' s"
    using first_max_ge [OF fm(1)] first_max_ge [OF fm(2)] assms(1) by (simp add: order_antisym)
  then show ?thesis using assms(3) mem by (auto dest: inj_onD)
next
  case True
  then show ?thesis using assms(1) by simp
qed

theorem Rendezvous_order_independent_witness:
  "Rendezvous fnv64 5 [''node-1'', ''node-2''] = Rendezvous fnv64 5 [''node-2'', ''node-1'']"
proof (rule Rendezvous_order_independent)
  have "weight fnv64 ''node-1'' 5 \<noteq> weight fnv64 ''node-2'' 5" by code_simp
  then show "inj_on (\<lambda>m. weight fnv64 m 5) (set [''node-1'', ''node-2''])"
    by (auto simp: inj_on_def)
qed auto

text \<open>C5: \<open>ShardOf\<close> lands on one of the fixed 256 slots for every namespace and every hash.\<close>

theorem ShardOf_in_range: "0 \<le> ShardOf xx ns \<and> ShardOf xx ns < ShardCount"
proof -
  let ?h = "xx (string_bytes ns)"
  have lt: "?h mod 256 < (256 :: 64 word)"
    by (rule word_mod_less_divisor) simp
  then have "uint (?h mod 256) < 256" by (simp add: word_less_def)
  moreover have "sint (?h mod 256) = uint (?h mod 256)"
  proof -
    have "- (2 ^ 63) \<le> uint (?h mod 256)" "uint (?h mod 256) < 2 ^ 63"
      using \<open>uint (?h mod 256) < 256\<close> order_trans [OF _ uint_ge_0, of "- (2 ^ 63)" "?h mod 256"]
      by simp_all
    then show ?thesis by (simp only: sint_uint) (simp add: signed_take_bit_int_eq_self)
  qed
  ultimately show ?thesis by (simp add: ShardOf_def ShardCount_def)
qed

text \<open>C6: distinct (member, shard) pairs are hashed over distinct byte strings: the member's
  bytes and the eight shard bytes cannot run into each other.\<close>

theorem weight_input_injective:
  assumes "int64_range s" and "int64_range t"
    and "weight_input m s = weight_input n t"
  shows "m = n \<and> s = t"
proof -
  have "string_bytes m = string_bytes n \<and> shard_bytes s = shard_bytes t"
    using assms(3) unfolding weight_input_def by (simp add: append_eq_append_conv)
  then show ?thesis using string_bytes_inj shard_bytes_inj assms(1,2) by blast
qed

theorem weight_input_injective_witness:
  "''node-1'' = ''node-1'' \<and> (7::int) = 7"
  by (rule weight_input_injective) (simp_all add: int64_range_def)

end
