(* ===== verification/Reconcile.thy ===== *)
theory Reconcile
  imports Placement
begin

section \<open>Reconcile: desired against actual placement (routing/reconcile.go)\<close>

text \<open>
  The pure half of the control loop. A shard map is Go's \<open>[ShardCount]string\<close>, a list of 256
  owners with the empty string for an unowned slot. \<open>Reconcile\<close> walks the slots once and
  collects the two lists in slot order.
\<close>

type_synonym shard_map = "string list"

definition wf_shard_map :: "shard_map \<Rightarrow> bool" where
  "wf_shard_map sm = (length sm = nat ShardCount)"

fun reconcile_loop :: "hash64 \<Rightarrow> string \<Rightarrow> string list \<Rightarrow> shard_map \<Rightarrow> shard list
    \<Rightarrow> shard list \<times> shard list \<Rightarrow> shard list \<times> shard list" where
  "reconcile_loop xx me members shardMap [] (claim, release) = (claim, release)"
| "reconcile_loop xx me members shardMap (s # ss) (claim, release) =
     (let suggested = Rendezvous xx s members; actual = shardMap ! nat s
      in if actual = me \<and> suggested \<noteq> me then
           reconcile_loop xx me members shardMap ss (claim, release @ [s])
         else if actual = [] \<and> suggested = me then
           reconcile_loop xx me members shardMap ss (claim @ [s], release)
         else reconcile_loop xx me members shardMap ss (claim, release))"

definition Reconcile :: "hash64 \<Rightarrow> string \<Rightarrow> string list \<Rightarrow> shard_map \<Rightarrow> shard list \<times> shard list" where
  "Reconcile xx me members shardMap = reconcile_loop xx me members shardMap shards ([], [])"

text \<open>The set-level meaning of the two lists.\<close>

definition wants_release :: "hash64 \<Rightarrow> string \<Rightarrow> string list \<Rightarrow> shard_map \<Rightarrow> shard \<Rightarrow> bool" where
  "wants_release xx me members sm s = (sm ! nat s = me \<and> Rendezvous xx s members \<noteq> me)"

definition wants_claim :: "hash64 \<Rightarrow> string \<Rightarrow> string list \<Rightarrow> shard_map \<Rightarrow> shard \<Rightarrow> bool" where
  "wants_claim xx me members sm s =
     (\<not> wants_release xx me members sm s \<and> sm ! nat s = [] \<and> Rendezvous xx s members = me)"

lemma reconcile_loop_filter:
  "reconcile_loop xx me members sm ss (claim, release) =
     (claim @ filter (wants_claim xx me members sm) ss,
      release @ filter (wants_release xx me members sm) ss)"
  by (induction ss arbitrary: claim release)
    (auto simp: Let_def wants_claim_def wants_release_def)

lemma Reconcile_filter:
  "Reconcile xx me members sm =
     (filter (wants_claim xx me members sm) shards, filter (wants_release xx me members sm) shards)"
  by (simp add: Reconcile_def reconcile_loop_filter)

lemma Reconcile_sets:
  assumes "Reconcile xx me members sm = (claim, release)"
  shows "set claim = {s \<in> {0..<256}. wants_claim xx me members sm s}"
    and "set release = {s \<in> {0..<256}. wants_release xx me members sm s}"
    and "distinct claim" and "distinct release" and "set claim \<inter> set release = {}"
  using assms by (auto simp: Reconcile_filter wants_claim_def)

subsection \<open>Properties of Reconcile\<close>

text \<open>C31: exactly the unowned shards that rendezvous gives to this node are claimed, exactly the
  shards this node holds and is no longer suggested for are released; both lists are in
  increasing order without repeats and never share a shard.\<close>

theorem Reconcile_exact:
  assumes "me \<noteq> []" and "Reconcile xx me members sm = (claim, release)"
  shows "(\<forall>s. s \<in> set claim \<longleftrightarrow> 0 \<le> s \<and> s < ShardCount \<and> sm ! nat s = [] \<and> Rendezvous xx s members = me)
    \<and> (\<forall>s. s \<in> set release \<longleftrightarrow> 0 \<le> s \<and> s < ShardCount \<and> sm ! nat s = me \<and> Rendezvous xx s members \<noteq> me)
    \<and> sorted claim \<and> distinct claim \<and> sorted release \<and> distinct release
    \<and> set claim \<inter> set release = {}"
proof -
  have "claim = filter (wants_claim xx me members sm) shards"
    "release = filter (wants_release xx me members sm) shards"
    using assms(2) by (simp_all add: Reconcile_filter)
  then show ?thesis
    using assms(1)
    by (auto simp: wants_claim_def wants_release_def ShardCount_def sorted_filter [of id, simplified])
qed

theorem Reconcile_exact_witness:
  "\<exists>claim release. Reconcile fnv64 ''node-1'' [''node-1''] (replicate 256 []) = (claim, release)
    \<and> 9 \<in> set claim \<and> sorted claim"
proof -
  obtain claim release where
    r: "Reconcile fnv64 ''node-1'' [''node-1''] (replicate 256 []) = (claim, release)"
    by force
  have R: "Rendezvous fnv64 9 [''node-1''] = ''node-1''" by (simp add: Rendezvous_def Let_def)
  have "9 \<in> set claim \<and> sorted claim"
    using Reconcile_exact [OF _ r] R by (simp add: ShardCount_def)
  then show ?thesis using r by blast
qed

text \<open>C8: cold start. With no shard owned, every slot is claimed by exactly one member (a
  complete and disjoint cover, no shard orphaned), and nobody releases anything.\<close>

theorem Reconcile_cold_start_cover:
  assumes "members \<noteq> []" and "[] \<notin> set members" and "sm = replicate (nat ShardCount) []"
  shows "(\<forall>s. 0 \<le> s \<and> s < ShardCount \<longrightarrow>
      (\<exists>!me. me \<in> set members \<and> s \<in> set (fst (Reconcile xx me members sm))))
    \<and> (\<forall>me \<in> set members. snd (Reconcile xx me members sm) = [])"
proof -
  have cl: "s \<in> set (fst (Reconcile xx me members sm)) \<longleftrightarrow> Rendezvous xx s members = me"
    if "0 \<le> s" "s < ShardCount" "me \<in> set members" for s me
    using that assms
    by (auto simp: Reconcile_filter wants_claim_def wants_release_def ShardCount_def)
  have "\<exists>!me. me \<in> set members \<and> s \<in> set (fst (Reconcile xx me members sm))"
    if "0 \<le> s" "s < ShardCount" for s
    using cl [OF that] Rendezvous_mem [OF assms(1,2), of xx s] by metis
  moreover have "snd (Reconcile xx me members sm) = []" if "me \<in> set members" for me
    using that assms
    by (auto simp: Reconcile_filter wants_release_def ShardCount_def filter_empty_conv)
  ultimately show ?thesis by blast
qed

theorem Reconcile_cold_start_cover_witness:
  "\<exists>!me. me \<in> set [''node-1'', ''node-2''] \<and>
     200 \<in> set (fst (Reconcile fnv64 me [''node-1'', ''node-2''] (replicate (nat ShardCount) [])))"
  using Reconcile_cold_start_cover [of "[''node-1'', ''node-2'']", OF _ _ refl]
  by (simp add: ShardCount_def)

text \<open>C9: the fixed points of the control loop. No member wants to move anything exactly when
  every slot is held by its rendezvous owner or by a node that is not a member (whose key its
  lease will take away).\<close>

theorem Reconcile_fixpoint:
  assumes "members \<noteq> []" and "[] \<notin> set members" and "wf_shard_map sm"
  shows "(\<forall>me \<in> set members. Reconcile xx me members sm = ([], []))
    \<longleftrightarrow> (\<forall>s. 0 \<le> s \<and> s < ShardCount \<longrightarrow>
          sm ! nat s = Rendezvous xx s members \<or> (sm ! nat s \<noteq> [] \<and> sm ! nat s \<notin> set members))"
proof -
  have idle: "Reconcile xx me members sm = ([], []) \<longleftrightarrow>
      (\<forall>s. 0 \<le> s \<and> s < 256 \<longrightarrow> \<not> wants_claim xx me members sm s \<and> \<not> wants_release xx me members sm s)"
    for me
    by (auto simp: Reconcile_filter filter_empty_conv)
  have one: "(\<forall>me \<in> set members. \<not> wants_claim xx me members sm s \<and> \<not> wants_release xx me members sm s)
      \<longleftrightarrow> sm ! nat s = Rendezvous xx s members \<or> (sm ! nat s \<noteq> [] \<and> sm ! nat s \<notin> set members)" for s
    using Rendezvous_mem [OF assms(1,2), of xx s] assms(2)
    by (auto simp: wants_claim_def wants_release_def)
  show ?thesis unfolding idle ShardCount_def using one by blast
qed

theorem Reconcile_fixpoint_witness:
  "Reconcile fnv64 ''node-1'' [''node-1''] (replicate 256 ''node-1'') = ([], [])"
proof -
  have "Rendezvous fnv64 s [''node-1''] = ''node-1''" for s
    by (simp add: Rendezvous_def Let_def)
  moreover have "replicate 256 ''node-1'' ! nat s = ''node-1''" if "0 \<le> s \<and> s < 256" for s
    using that by (simp add: replicate_slot)
  ultimately show ?thesis
    using Reconcile_fixpoint [of "[''node-1'']" "replicate 256 ''node-1''" fnv64]
    by (simp add: ShardCount_def wf_shard_map_def)
qed

end
