(* ===== verification/Ownership.thy ===== *)
theory Ownership
  imports Etcd EtcdRef Reconcile
begin

section \<open>Ownership: shard keys and compare-and-swap (routing/ownership.go)\<close>

text \<open>
  The ownership keys, the claim, rebind and release transactions, the single lookup and the two
  bulk loads. \<open>registry\<close> is the abstract state of the component, slot to owner record, with a
  revision counter and the live leases; \<open>reg_of\<close> reads it off an etcd view. The locale
  \<open>shard_registry\<close> is the contract the coordinator relies on, and the sublocale below shows that
  these operations implement it over any client with the etcd laws.
\<close>

subsection \<open>The operations\<close>

definition shardKey :: "string \<Rightarrow> shard \<Rightarrow> string" where
  "shardKey prefix shard = path_Join [prefix, ''ownership'', ''shard'', strconv_Itoa shard]"

definition ClaimShard :: "('s, 'c, 'e) etcd \<Rightarrow> 'c gctx \<Rightarrow> string \<Rightarrow> shard \<Rightarrow> nodeid \<Rightarrow> lease_id \<Rightarrow> 's
    \<Rightarrow> ('e + bool \<times> term_no) \<times> 's" where
  "ClaimShard E ctx prefix shard nodeID lease s =
     (let key = shardKey prefix shard
      in case et_Txn E ctx (CreateRevision_eq key 0) (OpPut key nodeID lease) s of
           (Inl err, s1) \<Rightarrow> (Inl err, s1)
         | (Inr (succeeded, revision), s1) \<Rightarrow>
             if \<not> succeeded then (Inr (False, 0), s1) else (Inr (True, revision), s1))"

record OwnerInfo =
  Owner :: nodeid
  Term :: term_no
  Lease :: lease_id

definition zero_OwnerInfo :: OwnerInfo where
  "zero_OwnerInfo = \<lparr>Owner = [], Term = 0, Lease = 0\<rparr>"

text \<open>The base path both loads strip, and the slot a key under it stands for: \<open>None\<close> is the
  \<open>continue\<close> on a key that is no number or out of range.\<close>

definition shardBase :: "string \<Rightarrow> string" where
  "shardBase prefix = path_Join [prefix, ''ownership'', ''shard''] @ ''/''"

definition decode_slot :: "string \<Rightarrow> string \<Rightarrow> shard option" where
  "decode_slot base key =
     (case strconv_Atoi (drop (length base) key) of
        None \<Rightarrow> None
      | Some s \<Rightarrow> if s < 0 \<or> s \<ge> ShardCount then None else Some s)"

fun load_slots :: "string \<Rightarrow> (kv \<Rightarrow> 'a) \<Rightarrow> kv list \<Rightarrow> 'a list \<Rightarrow> 'a list" where
  "load_slots base f [] arr = arr"
| "load_slots base f (kv # kvs) arr =
     (case decode_slot base (kv_key kv) of
        None \<Rightarrow> load_slots base f kvs arr
      | Some s \<Rightarrow> load_slots base f kvs (arr[nat s := f kv]))"

definition kv_OwnerInfo :: "kv \<Rightarrow> OwnerInfo" where
  "kv_OwnerInfo kv = \<lparr>Owner = kv_value kv, Term = kv_mod kv, Lease = kv_lease kv\<rparr>"

definition LoadOwnershipMap :: "('s, 'c, 'e) etcd \<Rightarrow> 'c gctx \<Rightarrow> string \<Rightarrow> 's \<Rightarrow> ('e + OwnerInfo list) \<times> 's" where
  "LoadOwnershipMap E ctx prefix s =
     (let base = shardBase prefix
      in case et_GetPrefix E ctx base s of
           (Inl err, s1) \<Rightarrow> (Inl err, s1)
         | (Inr kvs, s1) \<Rightarrow>
             (Inr (load_slots base kv_OwnerInfo kvs (replicate (nat ShardCount) zero_OwnerInfo)), s1))"

definition RebindShard :: "('s, 'c, 'e) etcd \<Rightarrow> 'c gctx \<Rightarrow> string \<Rightarrow> shard \<Rightarrow> nodeid \<Rightarrow> lease_id \<Rightarrow> 's
    \<Rightarrow> ('e + bool \<times> term_no) \<times> 's" where
  "RebindShard E ctx prefix shard nodeID lease s =
     (let key = shardKey prefix shard
      in case et_Txn E ctx (Value_eq key nodeID) (OpPut key nodeID lease) s of
           (Inl err, s1) \<Rightarrow> (Inl err, s1)
         | (Inr (succeeded, revision), s1) \<Rightarrow>
             if \<not> succeeded then (Inr (False, 0), s1) else (Inr (True, revision), s1))"

definition ReleaseShard :: "('s, 'c, 'e) etcd \<Rightarrow> 'c gctx \<Rightarrow> string \<Rightarrow> shard \<Rightarrow> nodeid \<Rightarrow> 's
    \<Rightarrow> ('e + unit) \<times> 's" where
  "ReleaseShard E ctx prefix shard nodeID s =
     (let key = shardKey prefix shard
      in case et_Txn E ctx (Value_eq key nodeID) (OpDelete key) s of
           (Inl err, s1) \<Rightarrow> (Inl err, s1)
         | (Inr _, s1) \<Rightarrow> (Inr (), s1))"

text \<open>\<open>(owner, found)\<close>; more than one key never comes back for an exact \<open>Get\<close>, the first counts.\<close>

definition ShardOwner :: "('s, 'c, 'e) etcd \<Rightarrow> 'c gctx \<Rightarrow> string \<Rightarrow> shard \<Rightarrow> 's
    \<Rightarrow> ('e + string \<times> bool) \<times> 's" where
  "ShardOwner E ctx prefix shard s =
     (case et_Get E ctx (shardKey prefix shard) s of
        (Inl err, s1) \<Rightarrow> (Inl err, s1)
      | (Inr [], s1) \<Rightarrow> (Inr ([], False), s1)
      | (Inr (kv # _), s1) \<Rightarrow> (Inr (kv_value kv, True), s1))"

definition LoadShardMap :: "('s, 'c, 'e) etcd \<Rightarrow> 'c gctx \<Rightarrow> string \<Rightarrow> 's \<Rightarrow> ('e + shard_map) \<times> 's" where
  "LoadShardMap E ctx prefix s =
     (case et_GetPrefix E ctx (shardBase prefix) s of
        (Inl err, s1) \<Rightarrow> (Inl err, s1)
      | (Inr kvs, s1) \<Rightarrow>
          (Inr (load_slots (shardBase prefix) kv_value kvs (replicate (nat ShardCount) [])), s1))"

subsection \<open>Keys: injective and decodable\<close>

lemma shardKey_base: "shardKey prefix s = shardBase prefix @ strconv_Itoa s"
proof -
  have "plain_segment ''shard''" by (simp add: plain_segment_def)
  from path_Join_snoc [OF this Itoa_plain, of "[prefix, ''ownership'']" s]
  show ?thesis by (simp add: shardKey_def shardBase_def)
qed

lemma decode_shardKey: "int64_range s \<Longrightarrow>
    decode_slot (shardBase prefix) (shardKey prefix s) = (if 0 \<le> s \<and> s < 256 then Some s else None)"
  by (auto simp: decode_slot_def shardKey_base Atoi_Itoa ShardCount_def)

lemma slot_int64: "0 \<le> s \<Longrightarrow> s < 256 \<Longrightarrow> int64_range s"
  by (simp add: int64_range_def)

lemma shardKey_inj: "int64_range s \<Longrightarrow> int64_range t \<Longrightarrow> shardKey p s = shardKey p t \<Longrightarrow> s = t"
  by (simp add: shardKey_base Itoa_inj)

lemma decode_range: "decode_slot base k = Some s \<Longrightarrow> 0 \<le> s \<and> s < 256"
  by (auto simp: decode_slot_def ShardCount_def split: option.splits if_splits)

lemma load_slots_length [simp]: "length (load_slots base f kvs arr) = length arr"
  by (induction base f kvs arr rule: load_slots.induct) (auto split: option.splits)

lemma load_slots_miss:
  assumes "\<And>x. x \<in> set kvs \<Longrightarrow> decode_slot base (kv_key x) \<noteq> Some s" "0 \<le> s"
  shows "load_slots base f kvs arr ! nat s = arr ! nat s"
  using assms
proof (induction base f kvs arr rule: load_slots.induct)
  case (2 base f kv kvs arr)
  show ?case
  proof (cases "decode_slot base (kv_key kv)")
    case (Some t)
    then have "t \<noteq> s" "0 \<le> t" using "2.prems" decode_range by auto
    then have "nat t \<noteq> nat s" using \<open>0 \<le> s\<close> by simp
    then show ?thesis using "2.IH"(2) [OF Some] "2.prems" Some by simp
  qed (use "2" in simp)
qed simp

lemma load_slots_hit:
  assumes "x \<in> set kvs" "decode_slot base (kv_key x) = Some s"
    and "\<forall>y \<in> set kvs. decode_slot base (kv_key y) = Some s \<longrightarrow> y = x"
    and "nat s < length arr"
  shows "load_slots base f kvs arr ! nat s = f x"
  using assms(1,3,4)
proof (induction kvs arbitrary: arr)
  case Nil
  then show ?case by simp
next
  case (Cons kv kvs)
  have s0: "0 \<le> s" using assms(2) decode_range by blast
  show ?case
  proof (cases "x \<in> set kvs")
    case True
    have "load_slots base f kvs arr' ! nat s = f x" if "nat s < length arr'" for arr'
      by (rule Cons.IH [OF True _ that]) (use Cons.prems(2) in simp)
    then show ?thesis using Cons.prems(3) by (simp split: option.split)
  next
    case False
    then have kv: "kv = x" using Cons.prems(1) by simp
    have "decode_slot base (kv_key y) \<noteq> Some s" if "y \<in> set kvs" for y
      using that Cons.prems(2) False by auto
    then have "load_slots base f kvs (arr[nat s := f x]) ! nat s = arr[nat s := f x] ! nat s"
      using s0 by (rule load_slots_miss)
    then show ?thesis using kv assms(2) Cons.prems(3) by simp
  qed
qed

subsection \<open>The abstract registry\<close>

record registry =
  rg_owner :: "shard \<rightharpoonup> OwnerInfo"
  rg_rev :: int
  rg_leases :: "lease_id set"

definition owned_by :: "registry \<Rightarrow> shard \<Rightarrow> nodeid \<Rightarrow> bool" where
  "owned_by g sh n = (case rg_owner g sh of None \<Rightarrow> False | Some i \<Rightarrow> Owner i = n)"

definition reg_put :: "shard \<Rightarrow> nodeid \<Rightarrow> lease_id \<Rightarrow> registry \<Rightarrow> registry" where
  "reg_put sh n l g = g\<lparr>rg_owner := (rg_owner g)(sh \<mapsto> \<lparr>Owner = n, Term = rg_rev g + 1, Lease = l\<rparr>),
     rg_rev := rg_rev g + 1\<rparr>"

definition reg_free :: "shard \<Rightarrow> registry \<Rightarrow> registry" where
  "reg_free sh g = g\<lparr>rg_owner := (rg_owner g)(sh := None), rg_rev := rg_rev g + 1\<rparr>"

definition lease_live :: "registry \<Rightarrow> lease_id \<Rightarrow> bool" where
  "lease_live g l = (l = 0 \<or> l \<in> rg_leases g)"

definition wf_registry :: "registry \<Rightarrow> bool" where
  "wf_registry g \<longleftrightarrow> (\<forall>sh i. rg_owner g sh = Some i \<longrightarrow>
     sh \<in> set shards \<and> 0 < Term i \<and> Term i \<le> rg_rev g \<and> lease_live g (Lease i))"

text \<open>The outcome of a compare-and-swap write: an error may hide an applied write; an answer
  tells whether the comparison held, with the new revision as the term.\<close>

definition cas_outcome :: "'e + bool \<times> term_no \<Rightarrow> bool \<Rightarrow> bool \<Rightarrow> registry \<Rightarrow> registry \<Rightarrow> registry \<Rightarrow> bool" where
  "cas_outcome r cond live new old cur = (case r of
       Inl e \<Rightarrow> cur = old \<or> (cond \<and> live \<and> cur = new)
     | Inr (b, t) \<Rightarrow> b = cond \<and> (if cond then live \<and> cur = new \<and> t = rg_rev new else cur = old \<and> t = 0))"

definition release_outcome :: "'e + unit \<Rightarrow> bool \<Rightarrow> registry \<Rightarrow> registry \<Rightarrow> registry \<Rightarrow> bool" where
  "release_outcome r cond new old cur = (case r of
       Inl e \<Rightarrow> cur = old \<or> (cond \<and> cur = new)
     | Inr _ \<Rightarrow> cur = (if cond then new else old))"

definition map_outcome :: "shard_map \<Rightarrow> registry \<Rightarrow> bool" where
  "map_outcome sm g \<longleftrightarrow> length sm = 256 \<and>
     (\<forall>sh \<in> set shards. sm ! nat sh = (case rg_owner g sh of None \<Rightarrow> [] | Some i \<Rightarrow> Owner i))"

definition info_outcome :: "OwnerInfo list \<Rightarrow> registry \<Rightarrow> bool" where
  "info_outcome om g \<longleftrightarrow> length om = 256 \<and>
     (\<forall>sh \<in> set shards. om ! nat sh = (case rg_owner g sh of None \<Rightarrow> zero_OwnerInfo | Some i \<Rightarrow> i))"

locale shard_registry =
  fixes claim :: "shard \<Rightarrow> nodeid \<Rightarrow> lease_id \<Rightarrow> 's \<Rightarrow> ('e + bool \<times> term_no) \<times> 's"
    and rebind :: "shard \<Rightarrow> nodeid \<Rightarrow> lease_id \<Rightarrow> 's \<Rightarrow> ('e + bool \<times> term_no) \<times> 's"
    and release :: "shard \<Rightarrow> nodeid \<Rightarrow> 's \<Rightarrow> ('e + unit) \<times> 's"
    and load_map :: "'s \<Rightarrow> ('e + shard_map) \<times> 's"
    and load_info :: "'s \<Rightarrow> ('e + OwnerInfo list) \<times> 's"
    and reg :: "'s \<Rightarrow> registry"
    and good :: "'s \<Rightarrow> bool"
  assumes good_wf: "good s \<Longrightarrow> wf_registry (reg s)"
    and claim_law: "good s \<Longrightarrow> sh \<in> set shards \<Longrightarrow> claim sh n l s = (r, s') \<Longrightarrow>
        good s' \<and> cas_outcome r (rg_owner (reg s) sh = None) (lease_live (reg s) l)
          (reg_put sh n l (reg s)) (reg s) (reg s')"
    and rebind_law: "good s \<Longrightarrow> sh \<in> set shards \<Longrightarrow> rebind sh n l s = (r, s') \<Longrightarrow>
        good s' \<and> cas_outcome r (owned_by (reg s) sh n) (lease_live (reg s) l)
          (reg_put sh n l (reg s)) (reg s) (reg s')"
    and release_law: "good s \<Longrightarrow> sh \<in> set shards \<Longrightarrow> release sh n s = (u, s') \<Longrightarrow>
        good s' \<and> release_outcome u (owned_by (reg s) sh n) (reg_free sh (reg s)) (reg s) (reg s')"
    and load_map_law: "good s \<Longrightarrow> load_map s = (mr, s') \<Longrightarrow>
        good s' \<and> reg s' = reg s \<and> (case mr of Inl e \<Rightarrow> True | Inr sm \<Rightarrow> map_outcome sm (reg s))"
    and load_info_law: "good s \<Longrightarrow> load_info s = (ir, s') \<Longrightarrow>
        good s' \<and> reg s' = reg s \<and> (case ir of Inl e \<Rightarrow> True | Inr om \<Rightarrow> info_outcome om (reg s))"

subsection \<open>The etcd operations implement the registry\<close>

definition reg_of :: "string \<Rightarrow> etcd_view \<Rightarrow> registry" where
  "reg_of p v = \<lparr>rg_owner = (\<lambda>sh. if sh \<in> set shards then map_option kv_OwnerInfo (ev_kvs v (shardKey p sh)) else None),
     rg_rev = ev_rev v, rg_leases = ev_leases v\<rparr>"

text \<open>Only the control plane writes below the ownership path: every key there is a slot's key.\<close>

definition canonical_keys :: "string \<Rightarrow> etcd_view \<Rightarrow> bool" where
  "canonical_keys p v \<longleftrightarrow>
     (\<forall>k \<in> dom (ev_kvs v). strings_HasPrefix k (shardBase p) \<longrightarrow> k \<in> shardKey p ` set shards)"

lemma shardKey_slot_inj: "sh \<in> set shards \<Longrightarrow> sh' \<in> set shards \<Longrightarrow> shardKey p sh = shardKey p sh' \<longleftrightarrow> sh = sh'"
  using shardKey_inj slot_int64 by auto

lemma reg_of_put:
  assumes "sh \<in> set shards"
  shows "reg_of p (apply_op v (OpPut (shardKey p sh) n l)) = reg_put sh n l (reg_of p v)"
  using assms shardKey_slot_inj [OF _ assms, of _ p]
  by (auto simp: reg_of_def reg_put_def put_kv_def kv_OwnerInfo_def fun_eq_iff simp del: shards_set)

lemma reg_of_delete:
  assumes "sh \<in> set shards" "ev_kvs v (shardKey p sh) \<noteq> None"
  shows "reg_of p (apply_op v (OpDelete (shardKey p sh))) = reg_free sh (reg_of p v)"
  using assms shardKey_slot_inj [OF _ assms(1), of _ p]
  by (auto simp: reg_of_def reg_free_def fun_eq_iff simp del: shards_set)

lemma canonical_put: "sh \<in> set shards \<Longrightarrow> canonical_keys p v \<Longrightarrow> canonical_keys p (apply_op v (OpPut (shardKey p sh) n l))"
  by (auto simp: canonical_keys_def)

lemma canonical_delete: "canonical_keys p v \<Longrightarrow> canonical_keys p (apply_op v (OpDelete k))"
  by (auto simp: canonical_keys_def)

lemma cmp_absent: "sh \<in> set shards \<Longrightarrow> wf_view v \<Longrightarrow>
    cmp_holds v (CreateRevision_eq (shardKey p sh) 0) = (rg_owner (reg_of p v) sh = None)"
  by (force simp: reg_of_def wf_view_def split: option.splits)

lemma cmp_value: "sh \<in> set shards \<Longrightarrow>
    cmp_holds v (Value_eq (shardKey p sh) n) = owned_by (reg_of p v) sh n"
  by (auto simp: reg_of_def owned_by_def kv_OwnerInfo_def split: option.splits)

lemma op_live: "op_allowed v (OpPut k n l) = lease_live (reg_of p v) l"
  by (simp add: lease_live_def reg_of_def)

lemma wf_reg_of: "wf_view v \<Longrightarrow> wf_registry (reg_of p v)"
  by (fastforce simp: wf_view_def wf_registry_def reg_of_def lease_live_def kv_OwnerInfo_def)

lemma wf_view_key: "wf_view v \<Longrightarrow> ev_kvs v k = Some x \<Longrightarrow> kv_key x = k"
  by (simp add: wf_view_def)

lemma canonical_decode:
  assumes "wf_view v" "canonical_keys p v" "x \<in> prefix_kvs v (shardBase p)"
  obtains sh where "sh \<in> set shards" "kv_key x = shardKey p sh" "ev_kvs v (shardKey p sh) = Some x"
    "decode_slot (shardBase p) (kv_key x) = Some sh"
proof -
  obtain k where k: "ev_kvs v k = Some x" "strings_HasPrefix k (shardBase p)"
    using assms(3) by (auto simp: prefix_kvs_def)
  then obtain sh where sh: "sh \<in> set shards" "k = shardKey p sh"
    using assms(2) by (auto simp: canonical_keys_def dom_def)
  moreover have "decode_slot (shardBase p) k = Some sh"
    using sh decode_shardKey [of sh p] slot_int64 by auto
  ultimately show ?thesis using that k wf_view_key [OF assms(1) k(1)] by simp
qed

text \<open>What a bulk load returns, for either payload.\<close>

lemma load_slots_view:
  assumes wf: "wf_view v" and can: "canonical_keys p v" and sh: "sh \<in> set shards"
    and kvs: "set kvs = prefix_kvs v (shardBase p)"
  shows "load_slots (shardBase p) f kvs (replicate 256 z) ! nat sh
    = (case ev_kvs v (shardKey p sh) of None \<Rightarrow> z | Some x \<Rightarrow> f x)"
proof (cases "ev_kvs v (shardKey p sh)")
  case None
  have "decode_slot (shardBase p) (kv_key x) \<noteq> Some sh" if "x \<in> set kvs" for x
  proof -
    have "x \<in> prefix_kvs v (shardBase p)" using that kvs by simp
    then obtain t where "ev_kvs v (shardKey p t) = Some x" "decode_slot (shardBase p) (kv_key x) = Some t"
      by (rule canonical_decode [OF wf can])
    then show ?thesis using None by auto
  qed
  then have "load_slots (shardBase p) f kvs (replicate 256 z) ! nat sh = replicate 256 z ! nat sh"
    using sh by (intro load_slots_miss) auto
  then show ?thesis using None sh by (simp add: replicate_slot)
next
  case (Some x)
  have x: "x \<in> set kvs"
    using kvs Some by (auto simp: prefix_kvs_def shardKey_base)
  have dx: "decode_slot (shardBase p) (kv_key x) = Some sh"
    using wf_view_key [OF wf Some] decode_shardKey [of sh p] slot_int64 sh by auto
  have uniq: "\<forall>y \<in> set kvs. decode_slot (shardBase p) (kv_key y) = Some sh \<longrightarrow> y = x"
  proof (intro ballI impI)
    fix y assume "y \<in> set kvs" "decode_slot (shardBase p) (kv_key y) = Some sh"
    moreover have "y \<in> prefix_kvs v (shardBase p)" using \<open>y \<in> set kvs\<close> kvs by simp
    then obtain t where "ev_kvs v (shardKey p t) = Some y" "decode_slot (shardBase p) (kv_key y) = Some t"
      by (rule canonical_decode [OF wf can])
    ultimately show "y = x" using Some by simp
  qed
  have "nat sh < length (replicate 256 z)" using sh by auto
  then have "load_slots (shardBase p) f kvs (replicate 256 z) ! nat sh = f x"
    by (rule load_slots_hit [OF x dx uniq])
  then show ?thesis using Some by simp
qed

locale etcd_registry = etcd_kv E view ok
  for E :: "('s, 'c, 'e) etcd" and view :: "'s \<Rightarrow> etcd_view" and ok :: "'s \<Rightarrow> bool" +
  fixes ctx :: "'c gctx"
    and pfx :: string
begin

lemma txn_slot:
  assumes "ok s" "canonical_keys pfx (view s)" "sh \<in> set shards"
    and "et_Txn E ctx cmp (OpPut (shardKey pfx sh) n l) s = (r, s')"
  shows "ok s' \<and> canonical_keys pfx (view s')
    \<and> (case r of Inl e \<Rightarrow> reg_of pfx (view s') = reg_of pfx (view s)
          \<or> (cmp_holds (view s) cmp \<and> lease_live (reg_of pfx (view s)) l
             \<and> reg_of pfx (view s') = reg_put sh n l (reg_of pfx (view s)))
       | Inr (b, t) \<Rightarrow> b = cmp_holds (view s) cmp
          \<and> (if b then lease_live (reg_of pfx (view s)) l \<and> t = rg_rev (reg_put sh n l (reg_of pfx (view s)))
               \<and> reg_of pfx (view s') = reg_put sh n l (reg_of pfx (view s))
             else reg_of pfx (view s') = reg_of pfx (view s)))"
proof -
  have "rg_rev (reg_of pfx (view s')) = ev_rev (view s')" by (simp add: reg_of_def)
  then show ?thesis
    using txn [OF assms(1,4)] assms(2,3) reg_of_put [OF assms(3), of pfx "view s" n l] canonical_put [OF assms(3,2), of n l]
    by (auto simp: txn_outcome_def op_live [of _ _ _ _ pfx] simp del: apply_op.simps op_allowed.simps shards_set
        split: sum.splits if_splits)
qed

lemma load_prefix:
  assumes "ok s" "canonical_keys pfx (view s)" "et_GetPrefix E ctx (shardBase pfx) s = (Inr kvs, s')"
    and "sh \<in> set shards"
  shows "load_slots (shardBase pfx) f kvs (replicate 256 z) ! nat sh
    = (case ev_kvs (view s) (shardKey pfx sh) of None \<Rightarrow> z | Some x \<Rightarrow> f x)"
  using get_prefix [OF assms(1,3)] ok_wf [OF assms(1)] assms(2,4) by (intro load_slots_view) auto

end

text \<open>The two compare-and-swap writes share the shape of their answer.\<close>

definition cas_reply :: "'e + bool \<times> term_no \<Rightarrow> 'e + bool \<times> term_no" where
  "cas_reply r = (case r of Inl e \<Rightarrow> Inl e | Inr (b, t) \<Rightarrow> if b then Inr (True, t) else Inr (False, 0))"

lemma ClaimShard_txn:
  "ClaimShard E c p sh n l s = map_prod cas_reply id
     (et_Txn E c (CreateRevision_eq (shardKey p sh) 0) (OpPut (shardKey p sh) n l) s)"
  by (auto simp: ClaimShard_def cas_reply_def Let_def split: prod.splits sum.splits)

lemma RebindShard_txn:
  "RebindShard E c p sh n l s = map_prod cas_reply id
     (et_Txn E c (Value_eq (shardKey p sh) n) (OpPut (shardKey p sh) n l) s)"
  by (auto simp: RebindShard_def cas_reply_def Let_def split: prod.splits sum.splits)

context etcd_registry
begin

lemma cas_slot:
  assumes "ok s" "canonical_keys pfx (view s)" "sh \<in> set shards"
    and "map_prod cas_reply id (et_Txn E ctx cmp (OpPut (shardKey pfx sh) n l) s) = (r, s')"
  shows "(ok s' \<and> canonical_keys pfx (view s')) \<and> cas_outcome r (cmp_holds (view s) cmp)
      (lease_live (reg_of pfx (view s)) l) (reg_put sh n l (reg_of pfx (view s)))
      (reg_of pfx (view s)) (reg_of pfx (view s'))"
proof -
  obtain r0 where t: "et_Txn E ctx cmp (OpPut (shardKey pfx sh) n l) s = (r0, s')" "r = cas_reply r0"
    using assms(4) by (metis id_apply map_prod_simp prod.collapse prod.inject)
  show ?thesis
    using txn_slot [OF assms(1-3) t(1)] t(2)
    by (auto simp: cas_outcome_def cas_reply_def simp del: cmp_holds.simps split: sum.splits if_splits)
qed

lemma release_slot:
  assumes "ok s" "canonical_keys pfx (view s)" "sh \<in> set shards" "ReleaseShard E ctx pfx sh n s = (u, s')"
  shows "(ok s' \<and> canonical_keys pfx (view s')) \<and> release_outcome u (owned_by (reg_of pfx (view s)) sh n)
      (reg_free sh (reg_of pfx (view s))) (reg_of pfx (view s)) (reg_of pfx (view s'))"
proof -
  let ?k = "shardKey pfx sh"
  obtain r0 s0 where t: "et_Txn E ctx (Value_eq ?k n) (OpDelete ?k) s = (r0, s0)" by force
  have u: "s' = s0" "isl u = isl r0"
    using assms(4) t by (cases r0; auto simp: ReleaseShard_def)+
  have owned: "cmp_holds (view s) (Value_eq ?k n) = owned_by (reg_of pfx (view s)) sh n"
    by (rule cmp_value [OF assms(3)])
  have "cmp_holds (view s) (Value_eq ?k n) \<Longrightarrow> ev_kvs (view s) ?k \<noteq> None"
    by (auto split: option.splits)
  then show ?thesis
    using txn [OF assms(1) t] u owned reg_of_delete [OF assms(3), of "view s" pfx]
      canonical_delete [OF assms(2), of ?k] assms(2)
    by (cases u; cases r0) (auto simp: txn_outcome_def release_outcome_def simp del: cmp_holds.simps apply_op.simps split: if_splits)
qed

lemma load_map_slots:
  assumes "ok s" "canonical_keys pfx (view s)" "LoadShardMap E ctx pfx s = (r, s')"
  shows "(ok s' \<and> canonical_keys pfx (view s')) \<and> reg_of pfx (view s') = reg_of pfx (view s)
    \<and> (case r of Inl e \<Rightarrow> True | Inr sm \<Rightarrow> map_outcome sm (reg_of pfx (view s)))"
proof -
  obtain r0 s0 where g: "et_GetPrefix E ctx (shardBase pfx) s = (r0, s0)" by force
  show ?thesis
    using get_prefix [OF assms(1) g] load_prefix [OF assms(1,2), of _ s0 _ kv_value "[]"] assms(2,3) g
    by (cases r0) (auto simp: LoadShardMap_def ShardCount_def map_outcome_def reg_of_def kv_OwnerInfo_def
        simp del: shards_set split: option.splits)
qed

lemma load_info_slots:
  assumes "ok s" "canonical_keys pfx (view s)" "LoadOwnershipMap E ctx pfx s = (r, s')"
  shows "(ok s' \<and> canonical_keys pfx (view s')) \<and> reg_of pfx (view s') = reg_of pfx (view s)
    \<and> (case r of Inl e \<Rightarrow> True | Inr om \<Rightarrow> info_outcome om (reg_of pfx (view s)))"
proof -
  obtain r0 s0 where g: "et_GetPrefix E ctx (shardBase pfx) s = (r0, s0)" by force
  show ?thesis
    using get_prefix [OF assms(1) g] load_prefix [OF assms(1,2), of _ s0 _ kv_OwnerInfo zero_OwnerInfo] assms(2,3) g
    by (cases r0) (auto simp: LoadOwnershipMap_def Let_def ShardCount_def info_outcome_def reg_of_def
        simp del: shards_set split: option.splits)
qed

end

sublocale etcd_registry \<subseteq> shard_registry "ClaimShard E ctx pfx" "RebindShard E ctx pfx" "ReleaseShard E ctx pfx"
  "LoadShardMap E ctx pfx" "LoadOwnershipMap E ctx pfx" "\<lambda>s. reg_of pfx (view s)" "\<lambda>s. ok s \<and> canonical_keys pfx (view s)"
proof unfold_locales
  fix s assume "ok s \<and> canonical_keys pfx (view s)"
  then show "wf_registry (reg_of pfx (view s))" using ok_wf wf_reg_of by blast
next
  fix s s' sh n l r
  assume "ok s \<and> canonical_keys pfx (view s)" "sh \<in> set shards" "ClaimShard E ctx pfx sh n l s = (r, s')"
  then show "(ok s' \<and> canonical_keys pfx (view s')) \<and> cas_outcome r (rg_owner (reg_of pfx (view s)) sh = None)
      (lease_live (reg_of pfx (view s)) l) (reg_put sh n l (reg_of pfx (view s))) (reg_of pfx (view s)) (reg_of pfx (view s'))"
    using cas_slot [of s sh "CreateRevision_eq (shardKey pfx sh) 0" n l r s'] cmp_absent [of sh "view s" pfx] ok_wf [of s]
    by (simp add: ClaimShard_txn del: cmp_holds.simps shards_set)
next
  fix s s' sh n l r
  assume "ok s \<and> canonical_keys pfx (view s)" "sh \<in> set shards" "RebindShard E ctx pfx sh n l s = (r, s')"
  then show "(ok s' \<and> canonical_keys pfx (view s')) \<and> cas_outcome r (owned_by (reg_of pfx (view s)) sh n)
      (lease_live (reg_of pfx (view s)) l) (reg_put sh n l (reg_of pfx (view s))) (reg_of pfx (view s)) (reg_of pfx (view s'))"
    using cas_slot [of s sh "Value_eq (shardKey pfx sh) n" n l r s'] cmp_value [of sh "view s" pfx n]
    by (simp add: RebindShard_txn del: cmp_holds.simps shards_set)
next
  fix s s' sh n u
  assume "ok s \<and> canonical_keys pfx (view s)" "sh \<in> set shards" "ReleaseShard E ctx pfx sh n s = (u, s')"
  then show "(ok s' \<and> canonical_keys pfx (view s')) \<and> release_outcome u (owned_by (reg_of pfx (view s)) sh n)
      (reg_free sh (reg_of pfx (view s))) (reg_of pfx (view s)) (reg_of pfx (view s'))"
    by (intro release_slot) auto
next
  fix s s' mr
  assume "ok s \<and> canonical_keys pfx (view s)" "LoadShardMap E ctx pfx s = (mr, s')"
  then show "(ok s' \<and> canonical_keys pfx (view s')) \<and> reg_of pfx (view s') = reg_of pfx (view s)
      \<and> (case mr of Inl e \<Rightarrow> True | Inr sm \<Rightarrow> map_outcome sm (reg_of pfx (view s)))"
    by (intro load_map_slots) auto
next
  fix s s' ir
  assume "ok s \<and> canonical_keys pfx (view s)" "LoadOwnershipMap E ctx pfx s = (ir, s')"
  then show "(ok s' \<and> canonical_keys pfx (view s')) \<and> reg_of pfx (view s') = reg_of pfx (view s)
      \<and> (case ir of Inl e \<Rightarrow> True | Inr om \<Rightarrow> info_outcome om (reg_of pfx (view s)))"
    by (intro load_info_slots) auto
qed

interpretation refreg: etcd_registry ref_etcd ref_view ref_ok ctx pfx for ctx pfx
  by unfold_locales

subsection \<open>Properties of ownership\<close>

context etcd_registry
begin

lemma is_registry: "shard_registry (ClaimShard E ctx pfx) (RebindShard E ctx pfx) (ReleaseShard E ctx pfx)
    (LoadShardMap E ctx pfx) (LoadOwnershipMap E ctx pfx) (\<lambda>s. reg_of pfx (view s))
    (\<lambda>s. ok s \<and> canonical_keys pfx (view s))"
  by (rule shard_registry_axioms)

lemma ShardOwner_slot:
  assumes "ok s" "sh \<in> set shards" "ShardOwner E ctx pfx sh s = (r, s')"
  shows "ok s' \<and> view s' = view s \<and> (case r of Inl e \<Rightarrow> True
    | Inr (o', found) \<Rightarrow> (case rg_owner (reg_of pfx (view s)) sh of
          None \<Rightarrow> o' = [] \<and> \<not> found | Some i \<Rightarrow> o' = Owner i \<and> found))"
proof -
  obtain r0 s0 where g: "et_Get E ctx (shardKey pfx sh) s = (r0, s0)" by force
  show ?thesis
    using get [OF assms(1) g] assms(2,3) g
    by (cases r0) (auto simp: ShardOwner_def reg_of_def kv_OwnerInfo_def split: option.splits)
qed

end

lemma registry_of_etcd: "etcd_kv E view ok \<Longrightarrow> etcd_registry E view ok"
  by (simp add: etcd_registry_def)

lemma slot_set: "0 \<le> sh \<Longrightarrow> sh < ShardCount \<Longrightarrow> sh \<in> set shards"
  by (simp add: ShardCount_def)

text \<open>The registry laws of the ownership operations over any etcd client, ready to apply.\<close>

lemmas ownership_registry = etcd_registry.is_registry [OF registry_of_etcd]
lemmas claim_slot = shard_registry.claim_law [OF ownership_registry]
lemmas rebind_slot = shard_registry.rebind_law [OF ownership_registry]
lemmas free_slot = shard_registry.release_law [OF ownership_registry]
lemmas map_slots = shard_registry.load_map_law [OF ownership_registry]
lemmas info_slots = shard_registry.load_info_law [OF ownership_registry]
lemmas owner_slot = etcd_registry.ShardOwner_slot [OF registry_of_etcd]

lemma lease_ended_reg:
  assumes "lease_ended l v v'"
  shows "rg_owner (reg_of p v') sh
    = (case rg_owner (reg_of p v) sh of None \<Rightarrow> None | Some i \<Rightarrow> if Lease i = l then None else Some i)"
  using assms by (auto simp: lease_ended_def reg_of_def kvs_without_def kv_OwnerInfo_def split: option.splits)

text \<open>A store with two live leases and no keys, to run the operations on.\<close>

definition demo_store :: ref_state where
  "demo_store = (ref_init [])\<lparr>rs_leases := [2, 1]\<rparr>"

abbreviation demo_etcd :: "(ref_state, unit, ref_err) etcd" where
  "demo_etcd \<equiv> ref_etcd"

lemma demo_good: "ref_ok demo_store \<and> canonical_keys p (ref_view demo_store)"
  by (simp add: demo_store_def ref_ok_def ref_init_def canonical_keys_def ref_view_def kv_find_def)

text \<open>C15: a claim is a compare-and-swap. It wins exactly when the shard has no owner; a winning
  claim stores this node under its lease and returns the commit revision, which is above the term
  of every owner record in the store; a losing claim changes nothing and returns term 0; no other
  shard is touched.\<close>

theorem ClaimShard_cas:
  assumes "etcd_kv E view ok" and "ok s \<and> canonical_keys p (view s)"
    and "0 \<le> sh" and "sh < ShardCount"
    and "ClaimShard E ctx p sh n l s = (Inr (won, t), s')"
  shows "won = (rg_owner (reg_of p (view s)) sh = None)
    \<and> (won \<longrightarrow> rg_owner (reg_of p (view s')) = (rg_owner (reg_of p (view s)))(sh \<mapsto> \<lparr>Owner = n, Term = t, Lease = l\<rparr>)
        \<and> (\<forall>sh' i. rg_owner (reg_of p (view s)) sh' = Some i \<longrightarrow> Term i < t))
    \<and> (\<not> won \<longrightarrow> t = 0 \<and> reg_of p (view s') = reg_of p (view s))"
proof -
  have "Term i \<le> rg_rev (reg_of p (view s))" if "rg_owner (reg_of p (view s)) sh' = Some i" for sh' i
    using that wf_reg_of [of "view s" p] etcd_kv.ok_wf [OF assms(1)] assms(2)
    by (auto simp: wf_registry_def)
  then show ?thesis
    using claim_slot [OF assms(1,2) slot_set [OF assms(3,4)] assms(5)]
    by (auto simp: cas_outcome_def reg_put_def split: if_splits)
qed

theorem ClaimShard_cas_witness:
  "\<exists>s'. ClaimShard demo_etcd Background ''cat'' 5 ''node-1'' 1 demo_store = (Inr (True, 2), s')
     \<and> rg_owner (reg_of ''cat'' (ref_view s')) 5 = Some \<lparr>Owner = ''node-1'', Term = 2, Lease = 1\<rparr>"
proof -
  have "fst (ClaimShard demo_etcd Background ''cat'' 5 ''node-1'' 1 demo_store) = Inr (True, 2)" by code_simp
  then obtain s' where c: "ClaimShard demo_etcd Background ''cat'' 5 ''node-1'' 1 demo_store = (Inr (True, 2), s')"
    by (metis prod.collapse)
  from ClaimShard_cas [OF ref.etcd_kv_axioms demo_good _ _ c] c show ?thesis by (auto simp: ShardCount_def)
qed

text \<open>C5: mutual exclusion. Once a node's claim has won, no claim by anybody wins on that shard,
  and a lookup finds the winner.\<close>

theorem ClaimShard_exclusive:
  assumes "etcd_kv E view ok" and "ok s \<and> canonical_keys p (view s)"
    and "0 \<le> sh" and "sh < ShardCount"
    and "ClaimShard E ctx p sh n1 l1 s = (Inr (True, t1), s1)"
    and "ClaimShard E ctx2 p sh n2 l2 s1 = (Inr (won2, t2), s2)"
    and "ShardOwner E ctx3 p sh s2 = (Inr (owner, found), s3)"
  shows "\<not> won2 \<and> found \<and> owner = n1"
proof -
  note sh = slot_set [OF assms(3,4)]
  note c1 = claim_slot [OF assms(1,2) sh assms(5)]
  then have g1: "ok s1 \<and> canonical_keys p (view s1)" by simp
  have o1: "rg_owner (reg_of p (view s1)) sh = Some \<lparr>Owner = n1, Term = t1, Lease = l1\<rparr>"
    using c1 by (auto simp: cas_outcome_def reg_put_def split: if_splits)
  note c2 = claim_slot [OF assms(1) g1 sh assms(6)]
  then have "\<not> won2" "reg_of p (view s2) = reg_of p (view s1)" "ok s2"
    using o1 by (auto simp: cas_outcome_def)
  then show ?thesis using owner_slot [OF assms(1) _ sh assms(7)] o1 by auto
qed

theorem ClaimShard_exclusive_witness:
  "\<exists>s1 s2 t2 won2 owner found s3. ClaimShard demo_etcd Background ''cat'' 5 ''node-1'' 1 demo_store = (Inr (True, 2), s1)
     \<and> ClaimShard demo_etcd Background ''cat'' 5 ''node-2'' 2 s1 = (Inr (won2, t2), s2)
     \<and> ShardOwner demo_etcd Background ''cat'' 5 s2 = (Inr (owner, found), s3)
     \<and> \<not> won2 \<and> found \<and> owner = ''node-1''"
proof -
  let ?s1 = "snd (ClaimShard demo_etcd Background ''cat'' 5 ''node-1'' 1 demo_store)"
  let ?s2 = "snd (ClaimShard demo_etcd Background ''cat'' 5 ''node-2'' 2 ?s1)"
  have 1: "fst (ClaimShard demo_etcd Background ''cat'' 5 ''node-1'' 1 demo_store) = Inr (True, 2)" by code_simp
  have 2: "fst (ClaimShard demo_etcd Background ''cat'' 5 ''node-2'' 2 ?s1) = Inr (False, 0)" by code_simp
  have 3: "fst (ShardOwner demo_etcd Background ''cat'' 5 ?s2) = Inr (''node-1'', True)" by code_simp
  note c = prod.collapse [of "ClaimShard demo_etcd Background ''cat'' 5 ''node-1'' 1 demo_store", symmetric, unfolded 1]
    prod.collapse [of "ClaimShard demo_etcd Background ''cat'' 5 ''node-2'' 2 ?s1", symmetric, unfolded 2]
    prod.collapse [of "ShardOwner demo_etcd Background ''cat'' 5 ?s2", symmetric, unfolded 3]
  have "\<not> False \<and> True \<and> ''node-1'' = ''node-1''"
    by (rule ClaimShard_exclusive [OF ref.etcd_kv_axioms demo_good _ _ c]) (simp_all add: ShardCount_def)
  then show ?thesis using c by blast
qed

text \<open>C6: terms fence. Between two winning claims of a shard any clients may have made any
  calls, with any outcomes: the later claim's term is strictly higher.\<close>

theorem ClaimShard_terms_increase:
  assumes "etcd_kv E view ok" and "ok s \<and> canonical_keys p (view s)"
    and "0 \<le> sh" and "sh < ShardCount"
    and "ClaimShard E ctx p sh n1 l1 s = (Inr (True, t1), s1)"
    and "(et_call E)\<^sup>*\<^sup>* s1 s2" and "canonical_keys p (view s2)"
    and "ClaimShard E ctx2 p sh n2 l2 s2 = (Inr (True, t2), s3)"
  shows "0 < t1 \<and> t1 < t2"
proof -
  note sh = slot_set [OF assms(3,4)]
  note c1 = claim_slot [OF assms(1,2) sh assms(5)]
  have "rg_rev (reg_of p (view s)) = ev_rev (view s)" "rg_rev (reg_of p (view s1)) = ev_rev (view s1)"
    "rg_rev (reg_of p (view s2)) = ev_rev (view s2)" "0 \<le> ev_rev (view s)"
    using etcd_kv.ok_wf [OF assms(1)] assms(2) by (auto simp: reg_of_def wf_view_def)
  moreover have m: "ok s2" "ev_rev (view s1) \<le> ev_rev (view s2)"
    using etcd_kv.calls_mono [OF assms(1,6)] c1 by simp_all
  moreover have "t2 = rg_rev (reg_of p (view s2)) + 1"
    using claim_slot [OF assms(1) _ sh assms(8)] m(1) assms(7)
    by (auto simp: cas_outcome_def reg_put_def split: if_splits)
  ultimately show ?thesis
    using c1 by (auto simp: cas_outcome_def reg_put_def split: if_splits)
qed

theorem ClaimShard_terms_increase_witness:
  "\<exists>s1 s2 s3. ClaimShard demo_etcd Background ''cat'' 5 ''node-1'' 1 demo_store = (Inr (True, 2), s1)
     \<and> et_Txn demo_etcd Background (Value_eq (shardKey ''cat'' 5) ''node-1'') (OpDelete (shardKey ''cat'' 5)) s1 = (Inr (True, 3), s2)
     \<and> ClaimShard demo_etcd Background ''cat'' 5 ''node-2'' 2 s2 = (Inr (True, 4), s3) \<and> (0::int) < 2 \<and> (2::int) < 4"
proof -
  let ?k = "shardKey ''cat'' 5"
  let ?s1 = "snd (ClaimShard demo_etcd Background ''cat'' 5 ''node-1'' 1 demo_store)"
  let ?s2 = "snd (et_Txn demo_etcd Background (Value_eq ?k ''node-1'') (OpDelete ?k) ?s1)"
  have 1: "fst (ClaimShard demo_etcd Background ''cat'' 5 ''node-1'' 1 demo_store) = Inr (True, 2)" by code_simp
  have 2: "fst (et_Txn demo_etcd Background (Value_eq ?k ''node-1'') (OpDelete ?k) ?s1) = Inr (True, 3)" by code_simp
  have 3: "fst (ClaimShard demo_etcd Background ''cat'' 5 ''node-2'' 2 ?s2) = Inr (True, 4)" by code_simp
  have "rs_kvs ?s2 = []" by code_simp
  then have can: "canonical_keys ''cat'' (ref_view ?s2)"
    by (simp add: canonical_keys_def ref_view_def kv_find_def)
  note c = prod.collapse [of "ClaimShard demo_etcd Background ''cat'' 5 ''node-1'' 1 demo_store", symmetric, unfolded 1]
    prod.collapse [of "et_Txn demo_etcd Background (Value_eq ?k ''node-1'') (OpDelete ?k) ?s1", symmetric, unfolded 2]
    prod.collapse [of "ClaimShard demo_etcd Background ''cat'' 5 ''node-2'' 2 ?s2", symmetric, unfolded 3]
  have run: "(et_call demo_etcd)\<^sup>*\<^sup>* ?s1 ?s2" using et_call.call_txn [OF c(2)] by blast
  have "(0::int) < 2 \<and> (2::int) < 4"
    by (rule ClaimShard_terms_increase [OF ref.etcd_kv_axioms demo_good _ _ c(1) run can c(3)])
      (simp_all add: ShardCount_def)
  then show ?thesis using c by blast
qed



text \<open>C17: a rebound shard survives its old lease. After a successful rebind to another lease the
  end of the previous incarnation's lease leaves the shard with this node, under the new term.\<close>

theorem RebindShard_survives_old_lease:
  assumes "etcd_kv E view ok" and "ok s \<and> canonical_keys p (view s)"
    and "0 \<le> sh" and "sh < ShardCount"
    and "RebindShard E ctx p sh n l s = (Inr (True, t), s')"
    and "old \<noteq> l" and "lease_ended old (view s') v"
  shows "rg_owner (reg_of p v) sh = Some \<lparr>Owner = n, Term = t, Lease = l\<rparr> \<and> owned_by (reg_of p (view s)) sh n"
  using rebind_slot [OF assms(1,2) slot_set [OF assms(3,4)] assms(5)] assms(6) lease_ended_reg [OF assms(7), of p sh]
  by (auto simp: cas_outcome_def reg_put_def split: if_splits)

theorem RebindShard_survives_old_lease_witness:
  "\<exists>s1 s2. ClaimShard demo_etcd Background ''cat'' 5 ''node-1'' 1 demo_store = (Inr (True, 2), s1)
     \<and> RebindShard demo_etcd Background ''cat'' 5 ''node-1'' 2 s1 = (Inr (True, 3), s2)
     \<and> rg_owner (reg_of ''cat'' (ref_view (ref_end_lease 1 s2))) 5 = Some \<lparr>Owner = ''node-1'', Term = 3, Lease = 2\<rparr>"
proof -
  let ?s1 = "snd (ClaimShard demo_etcd Background ''cat'' 5 ''node-1'' 1 demo_store)"
  let ?s2 = "snd (RebindShard demo_etcd Background ''cat'' 5 ''node-1'' 2 ?s1)"
  have 1: "fst (ClaimShard demo_etcd Background ''cat'' 5 ''node-1'' 1 demo_store) = Inr (True, 2)" by code_simp
  have 2: "fst (RebindShard demo_etcd Background ''cat'' 5 ''node-1'' 2 ?s1) = Inr (True, 3)" by code_simp
  obtain s1 s2 where c: "ClaimShard demo_etcd Background ''cat'' 5 ''node-1'' 1 demo_store = (Inr (True, 2), s1)"
    "RebindShard demo_etcd Background ''cat'' 5 ''node-1'' 2 s1 = (Inr (True, 3), s2)"
    using 1 2 by (metis prod.collapse)
  have g1: "ref_ok s1 \<and> canonical_keys ''cat'' (ref_view s1)"
    using refreg.claim_law [OF demo_good _ c(1)] by simp
  then have "ref_ok s2" using refreg.rebind_law [OF g1 _ c(2)] by simp
  then have "lease_ended 1 (ref_view s2) (ref_view (ref_end_lease 1 s2))" by (rule ref_end_lease_view)
  from RebindShard_survives_old_lease [OF ref.etcd_kv_axioms g1 _ _ c(2) _ this] c
  show ?thesis by (auto simp: ShardCount_def)
qed



text \<open>C21: the key of a slot decodes back to the slot under every prefix, so distinct slots have
  distinct keys and both bulk loads file every owner under its own slot.\<close>

theorem shardKey_roundtrip:
  assumes "0 \<le> sh" and "sh < ShardCount"
  shows "strings_HasPrefix (shardKey p sh) (shardBase p) \<and> decode_slot (shardBase p) (shardKey p sh) = Some sh"
  using decode_shardKey [of sh p] slot_int64 assms by (simp add: shardKey_base ShardCount_def)

theorem shardKey_roundtrip_witness:
  "decode_slot (shardBase ''cat'') (shardKey ''cat'' 42) = Some 42 \<and> shardKey ''cat'' 42 = ''cat/ownership/shard/42''"
proof
  show "decode_slot (shardBase ''cat'') (shardKey ''cat'' 42) = Some 42"
    using shardKey_roundtrip [of 42 "''cat''"] by (simp add: ShardCount_def)
  show "shardKey ''cat'' 42 = ''cat/ownership/shard/42''" by code_simp
qed

end
