(* ===== verification/Coordinator.thy ===== *)
theory Coordinator
  imports Membership Ownership
begin

section \<open>Coordinator: the control-plane agent of one node (routing/coordinator.go)\<close>

text \<open>
  The agent's state as a record, the whole reconcile round with every early return and swallowed
  error, the loop around it over the events its \<open>select\<close> sees, the request gate, and the
  read-outs. The mutex serialises access to \<open>owned\<close> and \<open>releasing\<close>, so the operations here are
  functions of the record. Errors that the round only logs come back as a list of warnings; a
  round without warnings is one in which every call succeeded.
\<close>

subsection \<open>State and construction\<close>

record coordinator =
  c_prefix :: string
  c_nodeID :: nodeid
  c_ttl :: int
  c_tick :: nanos
  c_membership :: "membership option"   \<comment> \<open>\<open>None\<close> is the nil pointer before \<open>Start\<close>\<close>
  c_leaseWindow :: nanos
  c_reconcileTimeout :: nanos
  c_owned :: "shard \<rightharpoonup> term_no"
  c_releasing :: "shard set"
  c_cancel :: bool                      \<comment> \<open>\<open>cancel\<close> is set: the loop was launched\<close>
  c_done :: bool                        \<comment> \<open>the \<open>done\<close> channel is closed: the loop has returned\<close>

text \<open>\<open>int64\<close> arithmetic of \<open>time.Duration\<close>: products wrap, division truncates.\<close>

definition wrap64 :: "int \<Rightarrow> int" where
  "wrap64 i = sint (word_of_int i :: 64 word)"

definition div_trunc :: "int \<Rightarrow> int \<Rightarrow> int" where
  "div_trunc a b = sgn a * sgn b * (\<bar>a\<bar> div \<bar>b\<bar>)"

definition time_Second :: nanos where
  "time_Second = 1000000000"

definition NewCoordinator :: "string \<Rightarrow> nodeid \<Rightarrow> int \<Rightarrow> nanos \<Rightarrow> coordinator" where
  "NewCoordinator prefix nodeID ttlSeconds tick =
     \<lparr>c_prefix = prefix, c_nodeID = nodeID, c_ttl = ttlSeconds, c_tick = tick, c_membership = None,
      c_leaseWindow = div_trunc (wrap64 (ttlSeconds * time_Second)) 2,
      c_reconcileTimeout = wrap64 (ttlSeconds * time_Second),
      c_owned = Map.empty, c_releasing = {}, c_cancel = False, c_done = False\<rparr>"

text \<open>\<open>None\<close> as the first component is a nil error.\<close>

definition Coordinator_Start :: "('s, 'c, 'e) etcd \<Rightarrow> 'c gctx \<Rightarrow> nanos \<Rightarrow> coordinator \<Rightarrow> 's
    \<Rightarrow> 'e option \<times> coordinator \<times> 's" where
  "Coordinator_Start E ctx now c s =
     (case JoinMembership E ctx (c_prefix c) (c_nodeID c) (c_ttl c) now s of
        (Inl err, s1) \<Rightarrow> (Some err, c, s1)
      | (Inr m, s1) \<Rightarrow> (None, c\<lparr>c_membership := Some m, c_cancel := True\<rparr>, s1))"

subsection \<open>The reconcile round\<close>

datatype 'e warning =
    ListMembersFailed 'e | LoadShardMapFailed 'e | ClaimFailed shard 'e
  | ReleaseFailed shard 'e | LoadOwnershipMapFailed 'e | RebindFailed shard 'e

definition MarkReleasing :: "coordinator \<Rightarrow> shard \<Rightarrow> coordinator" where
  "MarkReleasing c shard = c\<lparr>c_releasing := insert shard (c_releasing c)\<rparr>"

fun release_loop :: "('s, 'c, 'e) etcd \<Rightarrow> 'c gctx \<Rightarrow> shard list \<Rightarrow> coordinator \<Rightarrow> 's
    \<Rightarrow> coordinator \<times> 's \<times> (shard \<times> 'e) list" where
  "release_loop E cctx [] c s = (c, s, [])"
| "release_loop E cctx (sh # shs) c s =
     (let c1 = MarkReleasing c sh
      in case ReleaseShard E cctx (c_prefix c1) sh (c_nodeID c1) s of (r, s1) \<Rightarrow>
           (case release_loop E cctx shs c1 s1 of (c2, s2, ws) \<Rightarrow>
              (c2, s2, (case r of Inl err \<Rightarrow> (sh, err) # ws | Inr _ \<Rightarrow> ws))))"

text \<open>The shards whose key still rides another lease and that are not being released.\<close>

definition rebind_list :: "OwnerInfo list \<Rightarrow> nodeid \<Rightarrow> lease_id \<Rightarrow> shard list \<Rightarrow> shard list" where
  "rebind_list om nodeID lease release =
     filter (\<lambda>s. \<not> (Owner (om ! nat s) \<noteq> nodeID \<or> Lease (om ! nat s) = lease) \<and> s \<notin> set release) shards"

definition owned_of :: "OwnerInfo list \<Rightarrow> nodeid \<Rightarrow> (shard \<rightharpoonup> term_no)" where
  "owned_of om nodeID =
     map_of (map (\<lambda>s. (s, Term (om ! nat s))) (filter (\<lambda>s. Owner (om ! nat s) = nodeID) shards))"

definition releasing_of :: "(shard \<rightharpoonup> term_no) \<Rightarrow> shard list \<Rightarrow> shard set" where
  "releasing_of owned release = set (filter (\<lambda>s. owned s \<noteq> None) release)"

text \<open>\<open>lease\<close> is \<open>c.membership.LeaseID()\<close>; the loop runs only after \<open>Start\<close> has set the membership.\<close>

definition reconcileOnce :: "('s, 'c, 'e) etcd \<Rightarrow> hash64 \<Rightarrow> 'c gctx \<Rightarrow> lease_id \<Rightarrow> coordinator \<Rightarrow> 's
    \<Rightarrow> coordinator \<times> 's \<times> 'e warning list" where
  "reconcileOnce E xx ctx lease c s =
     (let cctx = WithTimeout ctx (c_reconcileTimeout c)
      in case ListMembers E cctx (c_prefix c) s of
           (Inl err, s1) \<Rightarrow> (c, s1, [ListMembersFailed err])
         | (Inr members, s1) \<Rightarrow>
        (case LoadShardMap E cctx (c_prefix c) s1 of
           (Inl err, s2) \<Rightarrow> (c, s2, [LoadShardMapFailed err])
         | (Inr sm, s2) \<Rightarrow>
        (case Reconcile xx (c_nodeID c) members sm of (claim, release) \<Rightarrow>
        (case for_each (\<lambda>sh. ClaimShard E cctx (c_prefix c) sh (c_nodeID c) lease) claim s2 of (s3, w1) \<Rightarrow>
        (case release_loop E cctx release c s3 of (c1, s4, w2) \<Rightarrow>
         let ws = map (\<lambda>(sh, err). ClaimFailed sh err) w1 @ map (\<lambda>(sh, err). ReleaseFailed sh err) w2
         in case LoadOwnershipMap E cctx (c_prefix c) s4 of
              (Inl err, s5) \<Rightarrow> (c1, s5, ws @ [LoadOwnershipMapFailed err])
            | (Inr om, s5) \<Rightarrow>
        (case for_each (\<lambda>sh. RebindShard E cctx (c_prefix c) sh (c_nodeID c) lease)
                (rebind_list om (c_nodeID c) lease release) s5 of (s6, w3) \<Rightarrow>
         let owned = owned_of om (c_nodeID c)
         in (c1\<lparr>c_owned := owned, c_releasing := releasing_of owned release\<rparr>, s6,
             ws @ map (\<lambda>(sh, err). RebindFailed sh err) w3)))))))"

text \<open>The loop: one round at once, then one per tick until the context is done or the lease is
  lost. The event list is the order in which \<open>select\<close> takes its cases.\<close>

datatype loop_event = CtxDone | LeaseLost | Tick

fun loop_select :: "('s, 'c, 'e) etcd \<Rightarrow> hash64 \<Rightarrow> 'c gctx \<Rightarrow> lease_id \<Rightarrow> loop_event list \<Rightarrow> coordinator \<Rightarrow> 's
    \<Rightarrow> coordinator \<times> 's \<times> 'e warning list" where
  "loop_select E xx ctx lease [] c s = (c, s, [])"
| "loop_select E xx ctx lease (CtxDone # evs) c s = (c\<lparr>c_done := True\<rparr>, s, [])"
| "loop_select E xx ctx lease (LeaseLost # evs) c s = (c\<lparr>c_done := True\<rparr>, s, [])"
| "loop_select E xx ctx lease (Tick # evs) c s =
     (case reconcileOnce E xx ctx lease c s of (c1, s1, w1) \<Rightarrow>
      (case loop_select E xx ctx lease evs c1 s1 of (c2, s2, w2) \<Rightarrow> (c2, s2, w1 @ w2)))"

definition loop :: "('s, 'c, 'e) etcd \<Rightarrow> hash64 \<Rightarrow> 'c gctx \<Rightarrow> membership \<Rightarrow> loop_event list \<Rightarrow> coordinator \<Rightarrow> 's
    \<Rightarrow> coordinator \<times> 's \<times> 'e warning list" where
  "loop E xx ctx m evs c s =
     (case reconcileOnce E xx ctx (LeaseID m) c s of (c1, s1, w1) \<Rightarrow>
      (case loop_select E xx ctx (LeaseID m) evs c1 s1 of (c2, s2, w2) \<Rightarrow> (c2, s2, w1 @ w2)))"

subsection \<open>The gate and the read-outs\<close>

text \<open>\<open>None\<close> is the nil dereference of \<open>c.membership\<close>.\<close>

definition Fatal :: "coordinator \<Rightarrow> bool option" where
  "Fatal c = map_option Lost (c_membership c)"

definition OwnedShards :: "coordinator \<Rightarrow> shard set" where
  "OwnedShards c = dom (c_owned c)"

definition IsServable :: "hash64 \<Rightarrow> coordinator \<Rightarrow> string \<Rightarrow> nanos \<Rightarrow> bool option" where
  "IsServable xx c namespace now =
     (let shard = ShardOf xx namespace; own = c_owned c shard \<noteq> None; rel = shard \<in> c_releasing c
      in if \<not> own \<or> rel then Some False
         else map_option (\<lambda>m. Fresh m (c_leaseWindow c) now) (c_membership c))"

definition OwnerTerm :: "coordinator \<Rightarrow> shard \<Rightarrow> term_no" where
  "OwnerTerm c shard = map_get 0 (c_owned c) shard"

definition Coordinator_Close :: "('s, 'c, 'e) etcd \<Rightarrow> coordinator \<Rightarrow> 's \<Rightarrow> coordinator \<times> 's" where
  "Coordinator_Close E c s =
     (let c1 = (if c_cancel c then c\<lparr>c_done := True\<rparr> else c)
      in case c_membership c1 of None \<Rightarrow> (c1, s)
         | Some m \<Rightarrow> (case Membership_Close E m s of (m', s') \<Rightarrow> (c1\<lparr>c_membership := Some m'\<rparr>, s')))"

definition Coordinator_simulateCrash :: "coordinator \<Rightarrow> coordinator" where
  "Coordinator_simulateCrash c =
     (let c1 = (if c_cancel c then c\<lparr>c_done := True\<rparr> else c)
      in c1\<lparr>c_membership := map_option Membership_simulateCrash (c_membership c1)\<rparr>)"

definition OwnerOf :: "('s, 'c, 'e) etcd \<Rightarrow> hash64 \<Rightarrow> 'c gctx \<Rightarrow> string \<Rightarrow> string \<Rightarrow> 's
    \<Rightarrow> ('e + string \<times> bool) \<times> 's" where
  "OwnerOf E xx ctx prefix namespace s = ShardOwner E ctx prefix (ShardOf xx namespace) s"

definition ShardTerm :: "hash64 \<Rightarrow> coordinator \<Rightarrow> string \<Rightarrow> term_no" where
  "ShardTerm xx c namespace = OwnerTerm c (ShardOf xx namespace)"

definition RouteMap :: "('s, 'c, 'e) etcd \<Rightarrow> 'c gctx \<Rightarrow> coordinator \<Rightarrow> 's
    \<Rightarrow> ('e + string list \<times> (shard \<rightharpoonup> string) \<times> (shard \<rightharpoonup> term_no)) \<times> 's" where
  "RouteMap E ctx c s =
     (case ListMembers E ctx (c_prefix c) s of
        (Inl err, s1) \<Rightarrow> (Inl err, s1)
      | (Inr members, s1) \<Rightarrow>
          (case LoadOwnershipMap E ctx (c_prefix c) s1 of
             (Inl err, s2) \<Rightarrow> (Inl err, s2)
           | (Inr om, s2) \<Rightarrow>
               (let owned = filter (\<lambda>s. Owner (om ! nat s) \<noteq> []) shards
                in (Inr (members, map_of (map (\<lambda>s. (s, Owner (om ! nat s))) owned),
                         map_of (map (\<lambda>s. (s, Term (om ! nat s))) owned)), s2))))"

subsection \<open>Properties of the agent\<close>

text \<open>For a TTL whose nanoseconds fit an \<open>int64\<close> the window is exactly half of it.\<close>

lemma window_exact:
  assumes "0 \<le> ttl" "ttl \<le> 9223372036"
  shows "c_leaseWindow (NewCoordinator p n ttl tick) = ttl * 500000000"
    "c_reconcileTimeout (NewCoordinator p n ttl tick) = ttl * 1000000000"
proof -
  have "wrap64 (ttl * time_Second) = ttl * 1000000000"
    unfolding wrap64_def time_Second_def sint_sbintrunc'
    by (rule signed_take_bit_int_eq_self) (use assms in simp_all)
  moreover have "div_trunc (ttl * 1000000000) 2 = ttl * 500000000"
    using assms by (simp add: div_trunc_def sgn_if)
  ultimately show "c_leaseWindow (NewCoordinator p n ttl tick) = ttl * 500000000"
    "c_reconcileTimeout (NewCoordinator p n ttl tick) = ttl * 1000000000"
   by (simp_all add: NewCoordinator_def)
qed

text \<open>A fresh agent, to run the operations on.\<close>

definition demo_agent :: coordinator where
  "demo_agent = NewCoordinator ''cat'' ''node-1'' 3 1000000000"

lemma demo_agent_facts [simp]:
  "c_prefix demo_agent = ''cat''" "c_nodeID demo_agent = ''node-1''" "c_owned demo_agent = Map.empty"
  "c_releasing demo_agent = {}"
  by (simp_all add: demo_agent_def NewCoordinator_def)



text \<open>C0: starting an agent joins the member set under a fresh live lease and arms the loop; when
  the join fails, the agent is as it was.\<close>

theorem Start_outcome:
  assumes "etcd_kv E view ok" and "ok s" and "Coordinator_Start E ctx now c s = (err, c', s')"
  shows "(err = None \<longrightarrow> (\<exists>m. c' = c\<lparr>c_membership := Some m, c_cancel := True\<rparr> \<and> m_nodeID m = c_nodeID c
           \<and> m_lastKeepAlive m = now \<and> \<not> Lost m \<and> LeaseID m \<in> ev_leases (view s')
           \<and> members_view (view s') (c_prefix c) = insert (c_nodeID c) (members_view (view s) (c_prefix c))))
    \<and> (err \<noteq> None \<longrightarrow> c' = c)"
proof -
  obtain r s1 where j: "JoinMembership E ctx (c_prefix c) (c_nodeID c) (c_ttl c) now s = (r, s1)" by force
  show ?thesis
  proof (cases r)
    case (Inl e)
    then show ?thesis using assms(3) j by (auto simp: Coordinator_Start_def)
  next
    case (Inr m)
    note jm = etcd_kv.Join_success [OF assms(1,2) j [unfolded Inr]]
    then have m: "m_nodeID m = c_nodeID c" "m_lastKeepAlive m = now" "\<not> m_lost m" by (metis membership.select_convs)+
    have "members_view (view s1) (c_prefix c) = insert (c_nodeID c) (members_view (view s) (c_prefix c))"
      "LeaseID m \<in> ev_leases (view s1)"
      using jm by (auto simp: members_view_def LeaseID_def)
    then show ?thesis using assms(3) j Inr m by (auto simp: Coordinator_Start_def Lost_def)
  qed
qed

theorem Start_outcome_witness:
  "\<exists>c' s'. Coordinator_Start demo_etcd Background 100 demo_agent demo_store = (None, c', s')
     \<and> members_view (ref_view s') ''cat'' = insert ''node-1'' (members_view (ref_view demo_store) ''cat'')"
proof -
  have "fst (Coordinator_Start demo_etcd Background 100 demo_agent demo_store) = None" by code_simp
  then obtain c' s' where st: "Coordinator_Start demo_etcd Background 100 demo_agent demo_store = (None, c', s')"
    by (metis prod.collapse)
  from Start_outcome [OF ref.etcd_kv_axioms _ st] demo_good [of "''cat''"] st show ?thesis by auto
qed



lemma release_loop_each:
  "release_loop E cctx xs c s =
     (case for_each (\<lambda>sh. ReleaseShard E cctx (c_prefix c) sh (c_nodeID c)) xs s of
        (s', ws) \<Rightarrow> (c\<lparr>c_releasing := c_releasing c \<union> set xs\<rparr>, s', ws))"
proof (induction xs arbitrary: c s)
  case Nil
  show ?case by simp
next
  case (Cons x xs)
  show ?case by (simp add: Cons.IH Let_def MarkReleasing_def case_prod_beta split: sum.split)
qed



lemma loop_select_stops:
  assumes "ev = CtxDone \<or> ev = LeaseLost" "loop_select E xx ctx l (pre @ ev # post) c s = (c', s', ws)"
  shows "c_done c' \<and> loop_select E xx ctx l (pre @ [ev]) c s = (c', s', ws)"
  using assms(2)
proof (induction pre arbitrary: c s ws)
  case Nil
  then show ?case using assms(1) by auto
next
  case (Cons e pre)
  show ?case
  proof (cases e)
    case Tick
    obtain c1 s1 w1 where r: "reconcileOnce E xx ctx l c s = (c1, s1, w1)" by (metis prod_cases3)
    obtain c2 s2 w2 where l: "loop_select E xx ctx l (pre @ ev # post) c1 s1 = (c2, s2, w2)" by (metis prod_cases3)
    then show ?thesis using Cons.IH [of c1 s1 w2] Cons.prems by (simp add: Tick r)
  qed (use Cons.prems in auto)
qed



end
