(* ===== verification/Slots.thy ===== *)
theory Slots
  imports Membership Ownership
begin

section \<open>Loops over slots: what a batch of claims, releases or rebinds does to the registry\<close>

text \<open>
  The reconcile round runs three best-effort loops over shards. Each touches only the slots it is
  given, and changes a slot by \<open>claimed\<close>, \<open>freed\<close> or \<open>rebound\<close>, where an errored call may or may
  not have been applied. The loop lemmas are proved once in \<open>shard_registry\<close>; \<open>claim_list\<close>,
  \<open>release_list\<close> and \<open>info_map_of\<close> read the round's inputs and outputs off the registry.
\<close>

subsection \<open>Effects on one slot\<close>

definition claimed :: "nodeid \<Rightarrow> lease_id \<Rightarrow> bool \<Rightarrow> OwnerInfo option \<Rightarrow> OwnerInfo option \<Rightarrow> bool" where
  "claimed n l failed old new = (if old = None
     then failed \<and> new = None \<or> (\<exists>t. new = Some \<lparr>Owner = n, Term = t, Lease = l\<rparr>) else new = old)"

definition rebound :: "nodeid \<Rightarrow> lease_id \<Rightarrow> bool \<Rightarrow> OwnerInfo option \<Rightarrow> OwnerInfo option \<Rightarrow> bool" where
  "rebound n l failed old new = (if map_option Owner old = Some n
     then failed \<and> new = old \<or> (\<exists>t. new = Some \<lparr>Owner = n, Term = t, Lease = l\<rparr>) else new = old)"

definition freed :: "nodeid \<Rightarrow> bool \<Rightarrow> OwnerInfo option \<Rightarrow> OwnerInfo option \<Rightarrow> bool" where
  "freed n failed old new = (if map_option Owner old = Some n
     then failed \<and> new = old \<or> new = None else new = old)"

text \<open>A loop over slots: the listed slots change by \<open>Q\<close>, the others not at all.\<close>

definition slots_changed :: "(bool \<Rightarrow> OwnerInfo option \<Rightarrow> OwnerInfo option \<Rightarrow> bool) \<Rightarrow> shard list \<Rightarrow> shard set
    \<Rightarrow> (shard \<rightharpoonup> OwnerInfo) \<Rightarrow> (shard \<rightharpoonup> OwnerInfo) \<Rightarrow> bool" where
  "slots_changed Q xs failed old new \<longleftrightarrow>
     (\<forall>sh. if sh \<in> set xs then Q (sh \<in> failed) (old sh) (new sh) else new sh = old sh)"

lemma owned_by_iff: "owned_by g sh n \<longleftrightarrow> map_option Owner (rg_owner g sh) = Some n"
  by (auto simp: owned_by_def split: option.splits)

definition slot_step :: "(bool \<Rightarrow> OwnerInfo option \<Rightarrow> OwnerInfo option \<Rightarrow> bool) \<Rightarrow> shard \<Rightarrow> bool
    \<Rightarrow> registry \<Rightarrow> registry \<Rightarrow> bool" where
  "slot_step Q sh failed g g' \<longleftrightarrow> rg_leases g' = rg_leases g \<and> Q failed (rg_owner g sh) (rg_owner g' sh)
     \<and> (\<forall>x. x \<noteq> sh \<longrightarrow> rg_owner g' x = rg_owner g x)"

lemma cas_claimed: "cas_outcome r (rg_owner g sh = None) live (reg_put sh n l g) g g'
    \<Longrightarrow> slot_step (claimed n l) sh (isl r) g g'"
  by (cases "rg_owner g sh = None"; cases r)
     (auto simp: cas_outcome_def slot_step_def claimed_def reg_put_def)

lemma cas_rebound: "cas_outcome r (owned_by g sh n) live (reg_put sh n l g) g g'
    \<Longrightarrow> slot_step (rebound n l) sh (isl r) g g'"
  by (cases "owned_by g sh n"; cases r)
     (auto simp: cas_outcome_def slot_step_def rebound_def reg_put_def owned_by_iff)

lemma release_freed: "release_outcome r (owned_by g sh n) (reg_free sh g) g g'
    \<Longrightarrow> slot_step (freed n) sh (isl r) g g'"
  by (auto simp: release_outcome_def slot_step_def freed_def reg_free_def owned_by_iff split: sum.splits if_splits)

context shard_registry
begin

lemma slot_loop:
  assumes step: "\<And>sh s r s'. sh \<in> set shards \<Longrightarrow> good s \<Longrightarrow> f sh s = (r, s') \<Longrightarrow>
      good s' \<and> slot_step Q sh (isl r) (reg s) (reg s')"
    and "set xs \<subseteq> set shards" "distinct xs" "good s" "for_each f xs s = (s', ws)"
  shows "good s' \<and> rg_leases (reg s') = rg_leases (reg s)
    \<and> slots_changed Q xs (fst ` set ws) (rg_owner (reg s)) (rg_owner (reg s'))"
  using assms(2-)
proof (induction xs arbitrary: s s' ws)
  case Nil
  then show ?case by (simp add: slots_changed_def)
next
  case (Cons y ys)
  obtain r s1 where f: "f y s = (r, s1)" by force
  obtain s2 ws2 where rest: "for_each f ys s1 = (s2, ws2)" by force
  have res: "s' = s2" "fst ` set ws = (if isl r then insert y (fst ` set ws2) else fst ` set ws2)"
    using Cons.prems(4) f rest by (auto split: sum.splits)
  have st: "good s1 \<and> slot_step Q y (isl r) (reg s) (reg s1)"
    using step [OF _ _ f] Cons.prems by simp
  then have ih: "good s2" "rg_leases (reg s2) = rg_leases (reg s1)"
      "slots_changed Q ys (fst ` set ws2) (rg_owner (reg s1)) (rg_owner (reg s2))"
    using Cons.IH [OF _ _ _ rest] Cons.prems by simp_all
  have y: "y \<notin> set ys" "y \<notin> fst ` set ws2"
    using Cons.prems(2) for_each_logged [of y _ f ys s1] rest by auto
  have slot: "if sh \<in> set (y # ys) then Q (sh \<in> fst ` set ws) (rg_owner (reg s) sh) (rg_owner (reg s2) sh)
      else rg_owner (reg s2) sh = rg_owner (reg s) sh" for sh
    using ih(3) [unfolded slots_changed_def, rule_format, of sh] st y res(2)
    by (cases "sh = y"; cases "sh \<in> set ys"; cases "isl r") (simp_all add: slot_step_def)
  show ?case
    using st ih(1,2) slot res(1) by (simp add: slots_changed_def slot_step_def)
qed

lemma claim_loop:
  assumes "set xs \<subseteq> set shards" "distinct xs" "good s" "for_each (\<lambda>sh. claim sh n l) xs s = (s', ws)"
  shows "good s' \<and> rg_leases (reg s') = rg_leases (reg s)
    \<and> slots_changed (claimed n l) xs (fst ` set ws) (rg_owner (reg s)) (rg_owner (reg s'))"
  using claim_law cas_claimed by (intro slot_loop [OF _ assms]) blast

lemma rebind_loop:
  assumes "set xs \<subseteq> set shards" "distinct xs" "good s" "for_each (\<lambda>sh. rebind sh n l) xs s = (s', ws)"
  shows "good s' \<and> rg_leases (reg s') = rg_leases (reg s)
    \<and> slots_changed (rebound n l) xs (fst ` set ws) (rg_owner (reg s)) (rg_owner (reg s'))"
  using rebind_law cas_rebound by (intro slot_loop [OF _ assms]) blast

lemma release_each:
  assumes "set xs \<subseteq> set shards" "distinct xs" "good s" "for_each (\<lambda>sh. release sh n) xs s = (s', ws)"
  shows "good s' \<and> rg_leases (reg s') = rg_leases (reg s)
    \<and> slots_changed (freed n) xs (fst ` set ws) (rg_owner (reg s)) (rg_owner (reg s'))"
  using release_law release_freed by (intro slot_loop [OF _ assms]) blast

end

subsection \<open>The round's lists, read off the registry\<close>

text \<open>A map built from the slots of an ownership array that satisfy \<open>P\<close>.\<close>

lemma info_map_of:
  assumes "info_outcome om g" "wf_registry g" "\<not> P zero_OwnerInfo"
  shows "map_of (map (\<lambda>s. (s, f (om ! nat s))) (filter (\<lambda>s. P (om ! nat s)) shards)) sh
    = (case rg_owner g sh of None \<Rightarrow> None | Some i \<Rightarrow> if P i then Some (f i) else None)"
proof (cases "sh \<in> set shards")
  case True
  then have "om ! nat sh = (case rg_owner g sh of None \<Rightarrow> zero_OwnerInfo | Some i \<Rightarrow> i)"
    using assms(1) by (simp add: info_outcome_def)
  then show ?thesis
    using True assms(3) by (auto simp: map_of_map_restrict restrict_map_def split: option.splits)
next
  case False
  then have "rg_owner g sh = None" using assms(2) unfolding wf_registry_def by (metis option.exhaust)
  then show ?thesis using False by (auto simp: map_of_map_restrict restrict_map_def)
qed

definition claim_list :: "hash64 \<Rightarrow> nodeid \<Rightarrow> string list \<Rightarrow> registry \<Rightarrow> shard list" where
  "claim_list xx n ms g = filter (\<lambda>sh. map_option Owner (rg_owner g sh) \<in> {None, Some []} \<and> Rendezvous xx sh ms = n) shards"

definition release_list :: "hash64 \<Rightarrow> nodeid \<Rightarrow> string list \<Rightarrow> registry \<Rightarrow> shard list" where
  "release_list xx n ms g = filter (\<lambda>sh. owned_by g sh n \<and> Rendezvous xx sh ms \<noteq> n) shards"

lemma Reconcile_registry:
  assumes "map_outcome sm g" "n \<noteq> []"
  shows "Reconcile xx n ms sm = (claim_list xx n ms g, release_list xx n ms g)"
proof -
  have "sm ! nat sh = (case rg_owner g sh of None \<Rightarrow> [] | Some i \<Rightarrow> Owner i)" if "sh \<in> set shards" for sh
    using that assms(1) by (simp add: map_outcome_def)
  then show ?thesis
    using assms(2)
    by (auto simp: Reconcile_filter claim_list_def release_list_def wants_claim_def wants_release_def owned_by_def
        split: option.splits intro!: filter_cong simp del: shards_set)
qed

lemma list_slots: "set (claim_list xx n ms g) \<subseteq> set shards" "distinct (claim_list xx n ms g)"
   "set (release_list xx n ms g) \<subseteq> set shards" "distinct (release_list xx n ms g)"
  by (auto simp: claim_list_def release_list_def)

text \<open>Member keys and slot keys never meet.\<close>

lemma member_shard_keys: "\<not> strings_HasPrefix (membersPrefix p @ n) (shardBase p)"
proof -
  have "plain_segment ''members''" "plain_segment ''ownership''" "plain_segment ''shard''" by (simp_all add: plain_segment_def)
  then have "membersPrefix p = join_base p @ ''members/''" "shardBase p = join_base p @ ''ownership/shard/''"
    using path_Join_snoc [of "''ownership''" "''shard''" "[p]"]
    by (simp_all add: membersPrefix_def shardBase_def path_Join_base)
  then show ?thesis by (simp add: HasPrefix_iff)
qed

lemma member_shard_disjoint: "membersPrefix p @ n \<noteq> shardKey p sh"
  using member_shard_keys [of p n] by (auto simp: shardKey_base)

end
