(* ===== verification/Rounds.thy ===== *)
theory Rounds
  imports Coordinator Slots
begin

section \<open>Reconcile rounds against their specification\<close>

text \<open>
  \<open>round_effect\<close> specifies what one reconcile round does to the agent and to the registry, for
  every way it can end. \<open>round_refines\<close> shows that \<open>reconcileOnce\<close> implements it over any client
  with the etcd laws, whatever calls fail; soundness of the gate and the exact effect of a
  round without warnings follow from the specification. \<open>etcd_registry_up\<close> adds availability:
  while etcd answers and the lease is alive, a round has no warnings.
\<close>

subsection \<open>The specification\<close>

lemma rebind_list_slots: "set (rebind_list om n l rl) \<subseteq> set shards" "distinct (rebind_list om n l rl)"
  by (auto simp: rebind_list_def)

lemma owned_of_info:
  assumes "info_outcome om g" "n \<noteq> []" "wf_registry g"
  shows "owned_of om n = (\<lambda>sh. if owned_by g sh n then map_option Term (rg_owner g sh) else None)"
  using info_map_of [OF assms(1,3), of "\<lambda>i. Owner i = n" Term] assms(2)
  by (auto simp: owned_of_def owned_by_def zero_OwnerInfo_def fun_eq_iff split: option.splits)

definition stale_list :: "nodeid \<Rightarrow> lease_id \<Rightarrow> shard list \<Rightarrow> registry \<Rightarrow> shard list" where
  "stale_list n l rl g = filter (\<lambda>sh. owned_by g sh n \<and> map_option Lease (rg_owner g sh) \<noteq> Some l \<and> sh \<notin> set rl) shards"

definition owned_view :: "registry \<Rightarrow> nodeid \<Rightarrow> (shard \<rightharpoonup> term_no)" where
  "owned_view g n = (\<lambda>sh. if owned_by g sh n then map_option Term (rg_owner g sh) else None)"

lemma rebind_list_stale:
  assumes "info_outcome om g" "n \<noteq> []"
  shows "rebind_list om n l rl = stale_list n l rl g"
proof -
  have "om ! nat sh = (case rg_owner g sh of None \<Rightarrow> zero_OwnerInfo | Some i \<Rightarrow> i)" if "sh \<in> set shards" for sh
    using that assms(1) by (simp add: info_outcome_def)
  then show ?thesis using assms(2)
    by (auto simp: rebind_list_def stale_list_def owned_by_def zero_OwnerInfo_def
        split: option.splits intro!: filter_cong simp del: shards_set)
qed

text \<open>The effect of one round on the agent and the registry, for each way it can end: nothing was
  read, the writes were tried but the final read failed, the round is complete.\<close>

inductive round_effect :: "hash64 \<Rightarrow> lease_id \<Rightarrow> string list \<Rightarrow> coordinator \<Rightarrow> registry
    \<Rightarrow> bool \<Rightarrow> coordinator \<Rightarrow> registry \<Rightarrow> bool"
  for xx lease ms c g where
  stalled: "rg_owner g' = rg_owner g \<Longrightarrow> round_effect xx lease ms c g False c g'"
| unread: "slots_changed (claimed (c_nodeID c) lease) (claim_list xx (c_nodeID c) ms g) fc (rg_owner g) o3 \<Longrightarrow>
    slots_changed (freed (c_nodeID c)) (release_list xx (c_nodeID c) ms g) fr o3 (rg_owner g') \<Longrightarrow>
    round_effect xx lease ms c g False
      (c\<lparr>c_releasing := c_releasing c \<union> set (release_list xx (c_nodeID c) ms g)\<rparr>) g'"
| complete: "slots_changed (claimed (c_nodeID c) lease) (claim_list xx (c_nodeID c) ms g) fc (rg_owner g) o3 \<Longrightarrow>
    slots_changed (freed (c_nodeID c)) (release_list xx (c_nodeID c) ms g) fr o3 (rg_owner g4) \<Longrightarrow>
    slots_changed (rebound (c_nodeID c) lease) (stale_list (c_nodeID c) lease (release_list xx (c_nodeID c) ms g) g4) fb
      (rg_owner g4) (rg_owner g') \<Longrightarrow>
    (clean \<Longrightarrow> fc = {} \<and> fr = {} \<and> fb = {}) \<Longrightarrow>
    round_effect xx lease ms c g clean
      (c\<lparr>c_owned := owned_view g4 (c_nodeID c),
         c_releasing := {sh \<in> set (release_list xx (c_nodeID c) ms g). owned_by g4 sh (c_nodeID c)}\<rparr>) g'"

subsection \<open>The code implements it\<close>

definition steady :: "('s \<Rightarrow> bool) \<Rightarrow> ('s \<Rightarrow> etcd_view) \<Rightarrow> string \<Rightarrow> string set \<Rightarrow> 's \<Rightarrow> bool" where
  "steady ok view p M s \<longleftrightarrow> (ok s \<and> canonical_keys p (view s)) \<and> members_view (view s) p = M"

lemma reg_of_leases [simp]: "rg_leases (reg_of p v) = ev_leases v"
  by (simp add: reg_of_def)

context etcd_registry
begin

lemma txn_members:
  assumes "ok s" "et_Txn E ctx cmp op s = (r, s')"
    and "op = OpDelete (shardKey pfx sh) \<or> (\<exists>x l. op = OpPut (shardKey pfx sh) x l)"
  shows "members_view (view s') pfx = members_view (view s) pfx"
proof -
  have "view s' = view s \<or> view s' = apply_op (view s) op"
    using txn [OF assms(1,2)] by (auto simp: txn_outcome_def split: sum.splits if_splits)
  then have "ev_kvs (view s') (membersPrefix pfx @ n) = ev_kvs (view s) (membersPrefix pfx @ n)" for n
    using assms(3) by (auto simp: member_shard_disjoint)
  then show ?thesis by (simp add: members_view_def)
qed

lemma slot_calls_members:
  assumes "ok s"
  shows "members_view (view (snd (ClaimShard E ctx pfx sh n l s))) pfx = members_view (view s) pfx"
    "members_view (view (snd (RebindShard E ctx pfx sh n l s))) pfx = members_view (view s) pfx"
    "members_view (view (snd (ReleaseShard E ctx pfx sh n s))) pfx = members_view (view s) pfx"
  using txn_members [OF assms prod.collapse [symmetric]]
  by (auto simp: ClaimShard_txn RebindShard_txn ReleaseShard_def Let_def case_prod_beta split: sum.split)

lemma claim_phase:
  assumes "set xs \<subseteq> set shards" "distinct xs" "steady ok view pfx M s"
    and "for_each (\<lambda>sh. ClaimShard E ctx pfx sh n l) xs s = (s', ws)"
  shows "steady ok view pfx M s' \<and> ev_leases (view s') = ev_leases (view s)
    \<and> slots_changed (claimed n l) xs (fst ` set ws) (rg_owner (reg_of pfx (view s))) (rg_owner (reg_of pfx (view s')))"
proof -
  have "steady ok view pfx M (fst (for_each (\<lambda>sh. ClaimShard E ctx pfx sh n l) xs s))"
    using assms(1,3) claim_law [OF _ _ prod.collapse [symmetric]] slot_calls_members(1)
    by (intro for_each_inv [of _ "steady ok view pfx M"]) (auto simp: steady_def simp del: shards_set)
  then show ?thesis
    using claim_loop [OF assms(1,2) _ assms(4)] assms(3,4) by (simp add: steady_def reg_of_leases)
qed

lemma rebind_phase:
  assumes "set xs \<subseteq> set shards" "distinct xs" "steady ok view pfx M s"
    and "for_each (\<lambda>sh. RebindShard E ctx pfx sh n l) xs s = (s', ws)"
  shows "steady ok view pfx M s' \<and> ev_leases (view s') = ev_leases (view s)
    \<and> slots_changed (rebound n l) xs (fst ` set ws) (rg_owner (reg_of pfx (view s))) (rg_owner (reg_of pfx (view s')))"
proof -
  have "steady ok view pfx M (fst (for_each (\<lambda>sh. RebindShard E ctx pfx sh n l) xs s))"
    using assms(1,3) rebind_law [OF _ _ prod.collapse [symmetric]] slot_calls_members(2)
    by (intro for_each_inv [of _ "steady ok view pfx M"]) (auto simp: steady_def simp del: shards_set)
  then show ?thesis
    using rebind_loop [OF assms(1,2) _ assms(4)] assms(3,4) by (simp add: steady_def reg_of_leases)
qed

lemma release_phase:
  assumes "set xs \<subseteq> set shards" "distinct xs" "steady ok view pfx M s"
    and "for_each (\<lambda>sh. ReleaseShard E ctx pfx sh n) xs s = (s', ws)"
  shows "steady ok view pfx M s' \<and> ev_leases (view s') = ev_leases (view s)
    \<and> slots_changed (freed n) xs (fst ` set ws) (rg_owner (reg_of pfx (view s))) (rg_owner (reg_of pfx (view s')))"
proof -
  have "steady ok view pfx M (fst (for_each (\<lambda>sh. ReleaseShard E ctx pfx sh n) xs s))"
    using assms(1,3) release_law [OF _ _ prod.collapse [symmetric]] slot_calls_members(3)
    by (intro for_each_inv [of _ "steady ok view pfx M"]) (auto simp: steady_def simp del: shards_set)
  then show ?thesis
    using release_each [OF assms(1,2) _ assms(4)] assms(3,4) by (simp add: steady_def reg_of_leases)
qed

lemma load_views:
  assumes "ok s"
  shows "view (snd (LoadShardMap E ctx pfx s)) = view s" "view (snd (LoadOwnershipMap E ctx pfx s)) = view s"
  using get_prefix [OF assms prod.collapse [symmetric]]
  by (simp_all add: LoadShardMap_def LoadOwnershipMap_def Let_def case_prod_beta split: sum.split)

lemma load_map_steady:
  assumes "steady ok view pfx M s" "LoadShardMap E ctx pfx s = (r, s')"
  shows "steady ok view pfx M s' \<and> view s' = view s"
  using assms load_views(1) [of s] load_map_law [of s r s'] by (simp add: steady_def)

lemma load_info_steady:
  assumes "steady ok view pfx M s" "LoadOwnershipMap E ctx pfx s = (r, s')"
  shows "steady ok view pfx M s' \<and> view s' = view s"
  using assms load_views(2) [of s] load_info_law [of s r s'] by (simp add: steady_def)

lemma list_steady:
  assumes "steady ok view pfx M s" "ListMembers E ctx pfx s = (r, s')"
  shows "steady ok view pfx M s' \<and> view s' = view s \<and> (\<forall>ms. r = Inr ms \<longrightarrow> ms = sorted_list_of_set M)"
  using assms ListMembers_law [of s ctx pfx r s'] by (auto simp: steady_def)

text \<open>The last part of a round: the authoritative read, the rebinds, the published view.\<close>

lemma publish_phase:
  assumes s: "steady ok view pfx M s" and n: "n \<noteq> []" and om: "LoadOwnershipMap E ctx pfx s = (Inr om, s1)"
    and rb: "for_each (\<lambda>sh. RebindShard E ctx pfx sh n lease) (rebind_list om n lease rl) s1 = (s2, ws)"
  shows "steady ok view pfx M s2 \<and> ev_leases (view s2) = ev_leases (view s)
    \<and> slots_changed (rebound n lease) (stale_list n lease rl (reg_of pfx (view s))) (fst ` set ws)
        (rg_owner (reg_of pfx (view s))) (rg_owner (reg_of pfx (view s2)))
    \<and> owned_of om n = owned_view (reg_of pfx (view s)) n
    \<and> releasing_of (owned_view (reg_of pfx (view s)) n) rl = {sh \<in> set rl. owned_by (reg_of pfx (view s)) sh n}"
proof -
  have g: "ok s \<and> canonical_keys pfx (view s)" using s by (simp add: steady_def)
  have info: "info_outcome om (reg_of pfx (view s))" using load_info_law [OF g om] by simp
  have l1: "steady ok view pfx M s1" "view s1 = view s" using load_info_steady [OF s om] by auto
  have ov: "owned_of om n = owned_view (reg_of pfx (view s)) n"
    using owned_of_info [OF info n good_wf [OF g]] by (simp add: owned_view_def)
  moreover have "releasing_of (owned_view (reg_of pfx (view s)) n) rl = {sh \<in> set rl. owned_by (reg_of pfx (view s)) sh n}"
    by (auto simp: releasing_of_def owned_view_def owned_by_def split: option.splits if_splits)
  ultimately show ?thesis
    using rebind_phase [OF rebind_list_slots l1(1) rb] l1(2) rebind_list_stale [OF info n] by simp
qed

lemma round_writes:
  assumes "steady ok view pfx M s" "map_outcome sm (reg_of pfx (view s))" "n \<noteq> []"
    and "Reconcile xx n (sorted_list_of_set M) sm = (cl, rl)"
    and "for_each (\<lambda>sh. ClaimShard E ctx pfx sh n lease) cl s = (s1, w1)"
    and "for_each (\<lambda>sh. ReleaseShard E ctx pfx sh n) rl s1 = (s2, w2)"
  shows "steady ok view pfx M s2 \<and> ev_leases (view s2) = ev_leases (view s)
    \<and> cl = claim_list xx n (sorted_list_of_set M) (reg_of pfx (view s))
    \<and> rl = release_list xx n (sorted_list_of_set M) (reg_of pfx (view s))
    \<and> slots_changed (claimed n lease) cl (fst ` set w1) (rg_owner (reg_of pfx (view s))) (rg_owner (reg_of pfx (view s1)))
    \<and> slots_changed (freed n) rl (fst ` set w2) (rg_owner (reg_of pfx (view s1))) (rg_owner (reg_of pfx (view s2)))"
proof -
  have l: "cl = claim_list xx n (sorted_list_of_set M) (reg_of pfx (view s))"
      "rl = release_list xx n (sorted_list_of_set M) (reg_of pfx (view s))"
    using Reconcile_registry [OF assms(2,3), of xx "sorted_list_of_set M"] assms(4) by simp_all
  have 1: "set cl \<subseteq> set shards" "distinct cl" "set rl \<subseteq> set shards" "distinct rl" using list_slots l by simp_all
  note c = claim_phase [OF 1(1,2) assms(1,5)]
  have "steady ok view pfx M s1" using c by simp
  from release_phase [OF 1(3,4) this assms(6)] c l show ?thesis by simp
qed

text \<open>Every round of the code is a round of the specification.\<close>

lemma round_refines:
  assumes r: "reconcileOnce E xx ctx0 lease c s = (c', s', ws)"
    and c: "ctx = WithTimeout ctx0 (c_reconcileTimeout c)" "pfx = c_prefix c" "c_nodeID c \<noteq> []"
    and s: "steady ok view pfx M s"
  shows "steady ok view pfx M s' \<and> ev_leases (view s') = ev_leases (view s) \<and>
    round_effect xx lease (sorted_list_of_set M) c (reg_of pfx (view s)) (ws = []) c' (reg_of pfx (view s'))"
proof -
  let ?me = "c_nodeID c"
  obtain r1 s1 where 1: "ListMembers E ctx pfx s = (r1, s1)" by force
  note l1 = list_steady [OF s 1]
  obtain r2 s2 where 2: "LoadShardMap E ctx pfx s1 = (r2, s2)" by force
  have l2: "steady ok view pfx M s2" "view s2 = view s" using load_map_steady [OF _ 2] l1 by auto
  show ?thesis
  proof (cases "isl r1 \<or> isl r2")
    case True
    then have "c' = c \<and> view s' = view s \<and> steady ok view pfx M s' \<and> ws \<noteq> []"
      using r 1 2 l1 l2 by (auto simp: reconcileOnce_def Let_def c(1,2) [symmetric] split: sum.splits)
    then show ?thesis by (simp add: round_effect.stalled)
  next
    case False
    then obtain ms sm where rs: "r1 = Inr ms" "r2 = Inr sm" by (metis sum.collapse(2))
    obtain cl rl where rc: "Reconcile xx ?me ms sm = (cl, rl)" by force
    obtain s3 w1 where 3: "for_each (\<lambda>sh. ClaimShard E ctx pfx sh ?me lease) cl s2 = (s3, w1)" by force
    obtain s4 w2 where 4: "for_each (\<lambda>sh. ReleaseShard E ctx pfx sh ?me) rl s3 = (s4, w2)" by force
    have "map_outcome sm (reg_of pfx (view s2))"
      using load_map_law [OF _ 2] rs l1 l2 by (auto simp: steady_def)
    moreover have "Reconcile xx ?me (sorted_list_of_set M) sm = (cl, rl)" using rc rs l1 by simp
    ultimately have w: "steady ok view pfx M s4" "ev_leases (view s4) = ev_leases (view s)"
      "cl = claim_list xx ?me (sorted_list_of_set M) (reg_of pfx (view s))"
      "rl = release_list xx ?me (sorted_list_of_set M) (reg_of pfx (view s))"
      "slots_changed (claimed ?me lease) cl (fst ` set w1) (rg_owner (reg_of pfx (view s))) (rg_owner (reg_of pfx (view s3)))"
      "slots_changed (freed ?me) rl (fst ` set w2) (rg_owner (reg_of pfx (view s3))) (rg_owner (reg_of pfx (view s4)))"
      using round_writes [OF l2(1) _ c(3) _ 3 4, of sm xx] by (auto simp only: l2(2))
    obtain r5 s5 where 5: "LoadOwnershipMap E ctx pfx s4 = (r5, s5)" by force
    note head = r [unfolded reconcileOnce_def Let_def c(1,2) [symmetric] 1 rs prod.case sum.case 2 rc 3 release_loop_each 4 5]
    show ?thesis
    proof (cases r5)
      case (Inl e)
      then show ?thesis
        using head w load_info_steady [OF w(1) 5] round_effect.unread [OF w(5,6) [unfolded w(3,4)]] by auto
    next
      case (Inr om)
      obtain s6 w3 where 6: "for_each (\<lambda>sh. RebindShard E ctx pfx sh ?me lease) (rebind_list om ?me lease rl) s5 = (s6, w3)"
        by force
      note pub = publish_phase [OF w(1) c(3) 5 [unfolded Inr] 6]
      have clean: "ws = [] \<Longrightarrow> fst ` set w1 = {} \<and> fst ` set w2 = {} \<and> fst ` set w3 = {}"
        using head 6 by (auto simp: Inr)
      have sb: "slots_changed (rebound ?me lease) (stale_list ?me lease (release_list xx ?me (sorted_list_of_set M)
          (reg_of pfx (view s))) (reg_of pfx (view s4))) (fst ` set w3) (rg_owner (reg_of pfx (view s4))) (rg_owner (reg_of pfx (view s6)))"
        using pub w(4) by simp
      have s6: "s6 = s'" using head 6 by (simp add: Inr)
      have c': "c\<lparr>c_owned := owned_view (reg_of pfx (view s4)) ?me, c_releasing := {sh \<in> set (release_list xx ?me
          (sorted_list_of_set M) (reg_of pfx (view s))). owned_by (reg_of pfx (view s4)) sh ?me}\<rparr> = c'"
        using head 6 pub w(4) by (simp add: Inr)
      show ?thesis
        using round_effect.complete [OF w(5,6) [unfolded w(3,4)] sb clean, unfolded c' s6] pub w(2) s6 by simp
    qed
  qed
qed

end

subsection \<open>Consequences of the specification\<close>

inductive_cases round_effectE: "round_effect xx lease ms c g clean c' g'"

definition gate_sound :: "coordinator \<Rightarrow> registry \<Rightarrow> bool" where
  "gate_sound c g \<longleftrightarrow> (\<forall>sh. c_owned c sh \<noteq> None \<and> sh \<notin> c_releasing c \<longrightarrow> owned_by g sh (c_nodeID c))"

lemma slots_at: "slots_changed Q xs f o1 o2 \<Longrightarrow> if sh \<in> set xs then Q (sh \<in> f) (o1 sh) (o2 sh) else o2 sh = o1 sh"
  unfolding slots_changed_def by (rule spec)

lemma claimed_keeps: "slots_changed (claimed n l) xs f o1 o2 \<Longrightarrow> o1 sh \<noteq> None \<Longrightarrow> o2 sh = o1 sh"
  unfolding slots_changed_def claimed_def by metis

lemma freed_keeps: "slots_changed (freed n) xs f o1 o2 \<Longrightarrow> sh \<notin> set xs \<Longrightarrow> o2 sh = o1 sh"
  unfolding slots_changed_def by metis

lemma rebound_owner: "slots_changed (rebound n l) xs f o1 o2 \<Longrightarrow> map_option Owner (o2 sh) = map_option Owner (o1 sh)"
  unfolding slots_changed_def rebound_def by (smt (verit) option.simps(9) OwnerInfo.select_convs(1))

lemma effect_gate:
  assumes "round_effect xx lease ms c g clean c' g'" "gate_sound c g"
  shows "gate_sound c' g'"
  using assms(1)
proof (cases rule: round_effect.cases)
  case stalled
  then show ?thesis using assms(2) by (simp add: gate_sound_def owned_by_iff)
next
  case (unread fc o3 fr)
  have "rg_owner g' sh = rg_owner g sh"
    if "owned_by g sh (c_nodeID c)" "sh \<notin> set (release_list xx (c_nodeID c) ms g)" for sh
    using claimed_keeps [OF unread(3), of sh] freed_keeps [OF unread(4)] that by (auto simp: owned_by_iff)
  then show ?thesis using assms(2) unread(2) by (simp add: gate_sound_def owned_by_iff)
next
  case (complete fc o3 fr g4 fb)
  then show ?thesis using rebound_owner [OF complete(4)]
    by (simp add: gate_sound_def owned_by_iff owned_view_def)
qed

lemma effect_config:
  assumes "round_effect xx lease ms c g clean c' g'"
  shows "c_prefix c' = c_prefix c \<and> c_nodeID c' = c_nodeID c \<and> c_membership c' = c_membership c
    \<and> c_leaseWindow c' = c_leaseWindow c \<and> c_reconcileTimeout c' = c_reconcileTimeout c"
  using assms by (cases rule: round_effect.cases) simp_all

definition next_owner :: "hash64 \<Rightarrow> nodeid \<Rightarrow> string list \<Rightarrow> shard \<Rightarrow> nodeid option \<Rightarrow> nodeid option" where
  "next_owner xx me ms sh old = (if old = None \<or> old = Some me
     then (if Rendezvous xx sh ms = me then Some me else None) else old)"

lemma effect_steps:
  assumes "round_effect xx lease ms c g True c' g'" "sh \<in> set shards"
  obtains o3 g4 where
    "if map_option Owner (rg_owner g sh) \<in> {None, Some []} \<and> Rendezvous xx sh ms = c_nodeID c
     then claimed (c_nodeID c) lease False (rg_owner g sh) o3 else o3 = rg_owner g sh"
    "if owned_by g sh (c_nodeID c) \<and> Rendezvous xx sh ms \<noteq> c_nodeID c
     then freed (c_nodeID c) False o3 (rg_owner g4 sh) else rg_owner g4 sh = o3"
    "if owned_by g4 sh (c_nodeID c) \<and> map_option Lease (rg_owner g4 sh) \<noteq> Some lease
        \<and> \<not> (owned_by g sh (c_nodeID c) \<and> Rendezvous xx sh ms \<noteq> c_nodeID c)
     then rebound (c_nodeID c) lease False (rg_owner g4 sh) (rg_owner g' sh) else rg_owner g' sh = rg_owner g4 sh"
  using assms(1)
proof (cases rule: round_effect.cases)
  case (complete fc o3 fr g4 fb)
  let ?n = "c_nodeID c"
  have l: "sh \<in> set (claim_list xx ?n ms g) \<longleftrightarrow> map_option Owner (rg_owner g sh) \<in> {None, Some []} \<and> Rendezvous xx sh ms = ?n"
      "sh \<in> set (release_list xx ?n ms g) \<longleftrightarrow> owned_by g sh ?n \<and> Rendezvous xx sh ms \<noteq> ?n"
      "sh \<in> set (stale_list ?n lease (release_list xx ?n ms g) g4) \<longleftrightarrow>
         owned_by g4 sh ?n \<and> map_option Lease (rg_owner g4 sh) \<noteq> Some lease \<and> sh \<notin> set (release_list xx ?n ms g)"
    using assms(2) by (auto simp: claim_list_def release_list_def stale_list_def)
  have e: "fc = {}" "fr = {}" "fb = {}" using complete(5) by simp_all
  show ?thesis
    by (rule that [of "o3 sh" g4])
       (use slots_at [OF complete(2), of sh] slots_at [OF complete(3), of sh] slots_at [OF complete(4), of sh]
        in \<open>simp_all only: l e empty_iff\<close>)
qed simp_all

text \<open>What a round without warnings does to one slot.\<close>

lemma effect_slot:
  assumes "round_effect xx lease ms c g True c' g'" "c_nodeID c \<noteq> []" "sh \<in> set shards"
  shows "map_option Owner (rg_owner g' sh) = next_owner xx (c_nodeID c) ms sh (map_option Owner (rg_owner g sh))
    \<and> (owned_by g' sh (c_nodeID c) \<longrightarrow> map_option Lease (rg_owner g' sh) = Some lease)
    \<and> (\<not> owned_by g' sh (c_nodeID c) \<and> \<not> owned_by g sh (c_nodeID c) \<longrightarrow> rg_owner g' sh = rg_owner g sh)"
proof -
  let ?n = "c_nodeID c"
  obtain o3 g4 where st:
    "if map_option Owner (rg_owner g sh) \<in> {None, Some []} \<and> Rendezvous xx sh ms = ?n
     then claimed ?n lease False (rg_owner g sh) o3 else o3 = rg_owner g sh"
    "if owned_by g sh ?n \<and> Rendezvous xx sh ms \<noteq> ?n then freed ?n False o3 (rg_owner g4 sh) else rg_owner g4 sh = o3"
    "if owned_by g4 sh ?n \<and> map_option Lease (rg_owner g4 sh) \<noteq> Some lease
        \<and> \<not> (owned_by g sh ?n \<and> Rendezvous xx sh ms \<noteq> ?n)
     then rebound ?n lease False (rg_owner g4 sh) (rg_owner g' sh) else rg_owner g' sh = rg_owner g4 sh"
    using effect_steps [OF assms(1,3)] .
  consider (free) "rg_owner g sh = None" | (mine) i where "rg_owner g sh = Some i" "Owner i = ?n"
    | (other) i where "rg_owner g sh = Some i" "Owner i \<noteq> ?n"
    by (cases "rg_owner g sh") auto
  then show ?thesis
  proof cases
    case free
    then have "rg_owner g4 sh = o3" using st(2) by (simp add: owned_by_iff)
    moreover have won: "if Rendezvous xx sh ms = ?n then \<exists>t. o3 = Some \<lparr>Owner = ?n, Term = t, Lease = lease\<rparr> else o3 = None"
      using st(1) free by (simp add: claimed_def split: if_splits)
    ultimately have "rg_owner g' sh = o3" using st(3) free by (auto simp: rebound_def split: if_splits)
    then show ?thesis using won free by (auto simp: owned_by_iff next_owner_def split: if_splits)
  next
    case mine
    then have "o3 = Some i" using st(1) assms(2) by simp
    then show ?thesis using st(2,3) mine
      by (cases "Rendezvous xx sh ms = ?n"; cases "Lease i = lease")
         (force simp: freed_def rebound_def owned_by_iff next_owner_def)+
  next
    case other
    have "o3 = Some i" using st(1) other by (simp add: claimed_def split: if_splits)
    then show ?thesis using st(2,3) other by (auto simp: owned_by_iff next_owner_def)
  qed
qed

lemma effect_published:
  assumes "round_effect xx lease ms c g True c' g'" "c_nodeID c \<noteq> []" "wf_registry g" "wf_registry g'"
  shows "OwnedShards c' = {sh. owned_by g' sh (c_nodeID c)} \<and> c_releasing c' = {}"
  using assms(1)
proof (cases rule: round_effect.cases)
  case (complete fc o3 fr g4 fb)
  let ?n = "c_nodeID c"
  have "owned_by g' sh ?n = owned_by g4 sh ?n" for sh
    using rebound_owner [OF complete(4)] by (simp add: owned_by_iff)
  moreover have "\<not> owned_by g4 sh ?n" if "sh \<in> set (release_list xx ?n ms g)" for sh
    using complete(3,5) that unfolding slots_changed_def freed_def owned_by_iff
    by (metis (full_types) empty_iff option.map_disc_iff option.simps(3))
  ultimately show ?thesis
    using complete(1) by (auto simp: OwnedShards_def owned_view_def owned_by_iff dom_def)
qed simp_all

subsection \<open>Rounds while etcd answers\<close>

definition live :: "('s \<Rightarrow> bool) \<Rightarrow> ('s \<Rightarrow> etcd_view) \<Rightarrow> ('s \<Rightarrow> bool) \<Rightarrow> string \<Rightarrow> string set \<Rightarrow> lease_id \<Rightarrow> 's \<Rightarrow> bool" where
  "live ok view up p M l s \<longleftrightarrow> steady ok view p M s \<and> up s \<and> l \<in> ev_leases (view s)"

locale etcd_registry_up = etcd_registry E view ok ctx pfx + etcd_up E view ok up
  for E :: "('s, 'c, 'e) etcd" and view :: "'s \<Rightarrow> etcd_view" and ok :: "'s \<Rightarrow> bool"
    and ctx :: "'c gctx" and pfx :: string and up :: "'s \<Rightarrow> bool"
begin

lemma cas_up:
  assumes "ok s \<and> up s \<and> l \<in> ev_leases (view s)"
  shows "\<not> isl (fst (ClaimShard E ctx pfx sh n l s)) \<and> up (snd (ClaimShard E ctx pfx sh n l s))"
    "\<not> isl (fst (RebindShard E ctx pfx sh n l s)) \<and> up (snd (RebindShard E ctx pfx sh n l s))"
    "\<not> isl (fst (ReleaseShard E ctx pfx sh n s)) \<and> up (snd (ReleaseShard E ctx pfx sh n s))"
proof -
  have t: "\<not> isl (fst (et_Txn E ctx cmp op s)) \<and> up (snd (et_Txn E ctx cmp op s))" if "op_allowed (view s) op" for cmp op
    using up_txn [of s op cmp ctx] assms that by auto
  have p: "\<not> isl (fst (et_Txn E ctx cmp (OpPut (shardKey pfx sh) n l) s)) \<and> up (snd (et_Txn E ctx cmp (OpPut (shardKey pfx sh) n l) s))" for cmp
    using t [of "OpPut (shardKey pfx sh) n l"] assms by simp
  show "\<not> isl (fst (ClaimShard E ctx pfx sh n l s)) \<and> up (snd (ClaimShard E ctx pfx sh n l s))"
    using p [of "CreateRevision_eq (shardKey pfx sh) 0"]
    by (simp add: ClaimShard_txn cas_reply_def go_control)
  show "\<not> isl (fst (RebindShard E ctx pfx sh n l s)) \<and> up (snd (RebindShard E ctx pfx sh n l s))"
    using p [of "Value_eq (shardKey pfx sh) n"]
    by (simp add: RebindShard_txn cas_reply_def go_control)
  show "\<not> isl (fst (ReleaseShard E ctx pfx sh n s)) \<and> up (snd (ReleaseShard E ctx pfx sh n s))"
    using t [of "OpDelete (shardKey pfx sh)" "Value_eq (shardKey pfx sh) n"]
    by (simp add: ReleaseShard_def go_control)
qed

lemma loads_up:
  assumes "ok s" "up s"
  shows "\<not> isl (fst (ListMembers E ctx pfx s)) \<and> up (snd (ListMembers E ctx pfx s))"
    "\<not> isl (fst (LoadShardMap E ctx pfx s)) \<and> up (snd (LoadShardMap E ctx pfx s))"
    "\<not> isl (fst (LoadOwnershipMap E ctx pfx s)) \<and> up (snd (LoadOwnershipMap E ctx pfx s))"
proof -
  have g: "\<not> isl (fst (et_GetPrefix E ctx p s)) \<and> up (snd (et_GetPrefix E ctx p s))" for p
    using up_get_prefix [OF assms, of ctx p] by auto
  show "\<not> isl (fst (ListMembers E ctx pfx s)) \<and> up (snd (ListMembers E ctx pfx s))"
    "\<not> isl (fst (LoadShardMap E ctx pfx s)) \<and> up (snd (LoadShardMap E ctx pfx s))"
    "\<not> isl (fst (LoadOwnershipMap E ctx pfx s)) \<and> up (snd (LoadOwnershipMap E ctx pfx s))"
    using g [of "membersPrefix pfx"] g [of "shardBase pfx"]
    by (simp_all add: ListMembers_def LoadShardMap_def LoadOwnershipMap_def go_control)
qed

text \<open>While etcd answers and the lease is alive, a round logs nothing.\<close>

lemma live_step:
  assumes "sh \<in> set shards" "live ok view up pfx M l s"
  shows "\<not> isl (fst (ClaimShard E ctx pfx sh n l s)) \<and> live ok view up pfx M l (snd (ClaimShard E ctx pfx sh n l s))"
    "\<not> isl (fst (RebindShard E ctx pfx sh n l s)) \<and> live ok view up pfx M l (snd (RebindShard E ctx pfx sh n l s))"
    "\<not> isl (fst (ReleaseShard E ctx pfx sh n s)) \<and> live ok view up pfx M l (snd (ReleaseShard E ctx pfx sh n s))"
proof -
  have s: "ok s \<and> up s \<and> l \<in> ev_leases (view s)" and g: "ok s \<and> canonical_keys pfx (view s)"
    using assms(2) by (simp_all add: live_def steady_def)
  have leases: "ev_leases (view t) = ev_leases (view s)" if "slot_step Q sh b (reg_of pfx (view s)) (reg_of pfx (view t))" for Q b t
    using that by (simp add: slot_step_def)
  note cl = claim_law [OF g assms(1) prod.collapse [symmetric], of n l]
  note rb = rebind_law [OF g assms(1) prod.collapse [symmetric], of n l]
  note rl = release_law [OF g assms(1) prod.collapse [symmetric], of n]
  show "\<not> isl (fst (ClaimShard E ctx pfx sh n l s)) \<and> live ok view up pfx M l (snd (ClaimShard E ctx pfx sh n l s))"
    using cl cas_up(1) [OF s, of sh n] slot_calls_members(1) [of s sh n l] assms(2) leases [OF cas_claimed [OF cl [THEN conjunct2]]]
    by (auto simp: live_def steady_def)
  show "\<not> isl (fst (RebindShard E ctx pfx sh n l s)) \<and> live ok view up pfx M l (snd (RebindShard E ctx pfx sh n l s))"
    using rb cas_up(2) [OF s, of sh n] slot_calls_members(2) [of s sh n l] assms(2) leases [OF cas_rebound [OF rb [THEN conjunct2]]]
    by (auto simp: live_def steady_def)
  show "\<not> isl (fst (ReleaseShard E ctx pfx sh n s)) \<and> live ok view up pfx M l (snd (ReleaseShard E ctx pfx sh n s))"
    using rl cas_up(3) [OF s, of sh n] slot_calls_members(3) [of s sh n] assms(2) leases [OF release_freed [OF rl [THEN conjunct2]]]
    by (auto simp: live_def steady_def)
qed

lemma live_loads:
  assumes "live ok view up pfx M l s"
  shows "\<not> isl (fst (ListMembers E ctx pfx s)) \<and> live ok view up pfx M l (snd (ListMembers E ctx pfx s))"
    "\<not> isl (fst (LoadShardMap E ctx pfx s)) \<and> live ok view up pfx M l (snd (LoadShardMap E ctx pfx s))"
    "\<not> isl (fst (LoadOwnershipMap E ctx pfx s)) \<and> live ok view up pfx M l (snd (LoadOwnershipMap E ctx pfx s))"
  using assms loads_up [of s] list_steady [OF _ prod.collapse [symmetric], of M s]
    load_map_steady [OF _ prod.collapse [symmetric], of M s] load_info_steady [OF _ prod.collapse [symmetric], of M s]
  by (auto simp: live_def steady_def)

lemma Reconcile_slots: "Reconcile xx n ms sm = (cl, rl) \<Longrightarrow> set cl \<subseteq> set shards \<and> set rl \<subseteq> set shards"
  by (auto simp: Reconcile_filter)

lemma round_clean:
  assumes c: "ctx = WithTimeout ctx0 (c_reconcileTimeout c)" "pfx = c_prefix c"
    and s: "live ok view up pfx M lease s"
    and r: "reconcileOnce E xx ctx0 lease c s = (c', s', ws)"
  shows "ws = [] \<and> up s'"
proof -
  let ?n = "c_nodeID c" and ?live = "live ok view up pfx M lease"
  obtain ms s1 where 1: "ListMembers E ctx pfx s = (Inr ms, s1)" "?live s1"
    using live_loads(1) [OF s] by (metis prod.collapse sum.collapse(2))
  obtain sm s2 where 2: "LoadShardMap E ctx pfx s1 = (Inr sm, s2)" "?live s2"
    using live_loads(2) [OF 1(2)] by (metis prod.collapse sum.collapse(2))
  obtain cl rl where rc: "Reconcile xx ?n ms sm = (cl, rl)" by force
  have sl: "set cl \<subseteq> set shards" "set rl \<subseteq> set shards" using Reconcile_slots [OF rc] by auto
  obtain s3 where 3: "for_each (\<lambda>sh. ClaimShard E ctx pfx sh ?n lease) cl s2 = (s3, [])" "?live s3"
    by (rule for_each_clean [of _ ?live, OF _ 2(2)]) (rule live_step(1) [OF subsetD [OF sl(1)]])
  obtain s4 where 4: "for_each (\<lambda>sh. ReleaseShard E ctx pfx sh ?n) rl s3 = (s4, [])" "?live s4"
    by (rule for_each_clean [of _ ?live, OF _ 3(2)]) (rule live_step(3) [OF subsetD [OF sl(2)]])
  obtain om s5 where 5: "LoadOwnershipMap E ctx pfx s4 = (Inr om, s5)" "?live s5"
    using live_loads(3) [OF 4(2)] by (metis prod.collapse sum.collapse(2))
  obtain s6 where 6: "for_each (\<lambda>sh. RebindShard E ctx pfx sh ?n lease) (rebind_list om ?n lease rl) s5 = (s6, [])" "?live s6"
    by (rule for_each_clean [of _ ?live, OF _ 5(2)]) (rule live_step(2) [OF subsetD [OF rebind_list_slots(1)]])
  have "ws = [] \<and> s' = s6"
    using r by (simp add: reconcileOnce_def Let_def c [symmetric] 1(1) 2(1) rc 3(1) release_loop_each 4(1) 5(1) 6(1))
  then show ?thesis using 6(2) by (simp add: live_def)
qed

end

lemma steady_self: "ok s \<and> canonical_keys p (view s) \<Longrightarrow> steady ok view p (members_view (view s) p) s"
  by (simp add: steady_def)

lemmas round_refinement = etcd_registry.round_refines [OF registry_of_etcd _ refl refl]

lemma registry_up_of_etcd: "etcd_up E view ok up \<Longrightarrow> etcd_registry_up E view ok up"
  by (simp add: etcd_registry_up_def registry_of_etcd etcd_up.axioms(1))

interpretation refup: etcd_registry_up ref_etcd ref_view ref_ok ctx pfx ref_up for ctx pfx
  by (rule registry_up_of_etcd [OF ref.etcd_up_axioms])

lemmas round_answered = etcd_registry_up.round_clean [OF registry_up_of_etcd refl refl]

lemma demo_live: "live ref_ok ref_view ref_up p (members_view (ref_view demo_store) p) 1 demo_store"
  using demo_good [of p] by (simp add: live_def steady_self) (simp add: demo_store_def ref_init_def ref_up_def ref_view_def)

lemma round_spec:
  assumes "etcd_kv E view ok" and "ok s \<and> canonical_keys (c_prefix c) (view s)" and "c_nodeID c \<noteq> []"
    and "reconcileOnce E xx ctx lease c s = (c', s', ws)"
  shows "round_effect xx lease (sorted_list_of_set (members_view (view s) (c_prefix c))) c
      (reg_of (c_prefix c) (view s)) (ws = []) c' (reg_of (c_prefix c) (view s'))
    \<and> (ok s' \<and> canonical_keys (c_prefix c) (view s'))
    \<and> members_view (view s') (c_prefix c) = members_view (view s) (c_prefix c)
    \<and> ev_leases (view s') = ev_leases (view s)"
proof -
  have "steady ok view (c_prefix c) (members_view (view s) (c_prefix c)) s"
    using assms(2) by (rule steady_self)
  from round_refinement [OF assms(1,4,3) this] show ?thesis by (simp add: steady_def)
qed

lemma round_gate:
  assumes "etcd_kv E view ok" and "ok s \<and> canonical_keys (c_prefix c) (view s)" and "c_nodeID c \<noteq> []"
    and "gate_sound c (reg_of (c_prefix c) (view s))"
    and "reconcileOnce E xx ctx lease c s = (c', s', ws)"
  shows "gate_sound c' (reg_of (c_prefix c') (view s')) \<and> (ok s' \<and> canonical_keys (c_prefix c') (view s'))
    \<and> c_prefix c' = c_prefix c \<and> c_nodeID c' = c_nodeID c"
proof -
  note r = round_spec [OF assms(1-3,5)]
  note e = r [THEN conjunct1]
  from effect_gate [OF e assms(4)] effect_config [OF e] r show ?thesis by simp
qed

lemma loop_select_sound:
  assumes "etcd_kv E view ok" "ok s \<and> canonical_keys (c_prefix c) (view s)" "c_nodeID c \<noteq> []"
    and "gate_sound c (reg_of (c_prefix c) (view s))" "loop_select E xx ctx lease evs c s = (c', s', ws)"
  shows "gate_sound c' (reg_of (c_prefix c') (view s'))"
  using assms(2-5)
proof (induction evs arbitrary: c s c' s' ws)
  case Nil
  then show ?case by simp
next
  case (Cons ev evs)
  show ?case
  proof (cases ev)
    case Tick
    obtain c1 s1 w1 where r: "reconcileOnce E xx ctx lease c s = (c1, s1, w1)" by (metis prod_cases3)
    obtain c2 s2 w2 where l: "loop_select E xx ctx lease evs c1 s1 = (c2, s2, w2)" by (metis prod_cases3)
    note g = round_gate [OF assms(1) Cons.prems(1-3) r]
    have "gate_sound c2 (reg_of (c_prefix c2) (view s2))"
      by (rule Cons.IH [OF _ _ _ l]) (use g Cons.prems(2) in auto)
    then show ?thesis using Cons.prems(4) by (simp add: Tick r l)
  qed (use Cons.prems in \<open>auto simp: gate_sound_def\<close>)
qed

lemma demo_agent_sound [simp]: "gate_sound demo_agent g"
  by (simp add: gate_sound_def)

subsection \<open>Properties of reconcile rounds\<close>

text \<open>C1: the gate is sound. Through any number of rounds, with any etcd call failing before or
  after it took effect and any round cut short, every shard the node would serve (owned and not
  releasing) is held by this node in etcd. Between the node's calls etcd is left alone here: what a
  lease expiry takes away is the subject of the freshness window.\<close>

theorem loop_gate_sound:
  assumes "etcd_kv E view ok" and "ok s \<and> canonical_keys (c_prefix c) (view s)" and "c_nodeID c \<noteq> []"
    and "gate_sound c (reg_of (c_prefix c) (view s))"
    and "loop E xx ctx m evs c s = (c', s', ws)"
  shows "\<forall>sh \<in> OwnedShards c' - c_releasing c'. owned_by (reg_of (c_prefix c') (view s')) sh (c_nodeID c')"
proof -
  obtain c1 s1 w1 where r: "reconcileOnce E xx ctx (LeaseID m) c s = (c1, s1, w1)" by (metis prod_cases3)
  obtain c2 s2 w2 where l: "loop_select E xx ctx (LeaseID m) evs c1 s1 = (c2, s2, w2)" by (metis prod_cases3)
  note g = round_gate [OF assms(1-4) r]
  have "gate_sound c2 (reg_of (c_prefix c2) (view s2))"
    by (rule loop_select_sound [OF assms(1) _ _ _ l]) (use g assms(3) in auto)
  then show ?thesis using assms(5) r l by (auto simp: loop_def gate_sound_def OwnedShards_def)
qed

theorem loop_gate_sound_witness:
  "\<exists>c' s' ws. loop demo_etcd fnv64 Background joined_member [Tick, LeaseLost] demo_agent demo_store = (c', s', ws)
     \<and> (\<forall>sh \<in> OwnedShards c' - c_releasing c'. owned_by (reg_of (c_prefix c') (ref_view s')) sh (c_nodeID c'))"
proof -
  obtain c' s' ws where l:
    "loop demo_etcd fnv64 Background joined_member [Tick, LeaseLost] demo_agent demo_store = (c', s', ws)"
    by (metis prod_cases3)
  from loop_gate_sound [OF ref.etcd_kv_axioms _ _ _ l] demo_good [of "''cat''"] l show ?thesis by auto
qed

text \<open>C3: what a round without warnings does. A slot that is free or held by this node ends up
  with this node, on its current lease, if rendezvous gives it to this node, and free otherwise;
  a slot held by another node is left alone. The node then publishes exactly the slots it holds
  and no releasing marks.\<close>

theorem reconcileOnce_exact:
  assumes "etcd_kv E view ok" and "ok s \<and> canonical_keys (c_prefix c) (view s)" and "c_nodeID c \<noteq> []"
    and "reconcileOnce E xx ctx lease c s = (c', s', [])"
    and "g = reg_of (c_prefix c) (view s)" and "g' = reg_of (c_prefix c) (view s')"
    and "ms = sorted_list_of_set (members_view (view s) (c_prefix c))"
  shows "(\<forall>sh. 0 \<le> sh \<and> sh < ShardCount \<longrightarrow>
      map_option Owner (rg_owner g' sh) =
        (if rg_owner g sh = None \<or> owned_by g sh (c_nodeID c)
         then (if Rendezvous xx sh ms = c_nodeID c then Some (c_nodeID c) else None)
         else map_option Owner (rg_owner g sh))
      \<and> (owned_by g' sh (c_nodeID c) \<longrightarrow> map_option Lease (rg_owner g' sh) = Some lease))
    \<and> OwnedShards c' = {sh. owned_by g' sh (c_nodeID c)} \<and> c_releasing c' = {}"
proof -
  note r = round_spec [OF assms(1-4)]
  have e: "round_effect xx lease ms c g True c' g'" using r assms(5-7) by simp
  have wf: "wf_registry g" "wf_registry g'"
    using wf_reg_of etcd_kv.ok_wf [OF assms(1)] r assms(2,5,6) by auto
  have "map_option Owner (rg_owner g' sh) =
        (if rg_owner g sh = None \<or> owned_by g sh (c_nodeID c)
         then (if Rendezvous xx sh ms = c_nodeID c then Some (c_nodeID c) else None)
         else map_option Owner (rg_owner g sh))
      \<and> (owned_by g' sh (c_nodeID c) \<longrightarrow> map_option Lease (rg_owner g' sh) = Some lease)"
    if "0 \<le> sh \<and> sh < ShardCount" for sh
    using effect_slot [OF e assms(3), of sh] that unfolding next_owner_def owned_by_iff [symmetric]
    by (simp add: ShardCount_def)
  then show ?thesis using effect_published [OF e assms(3) wf] by blast
qed

theorem reconcileOnce_exact_witness:
  "\<exists>c' s'. reconcileOnce demo_etcd fnv64 Background 1 demo_agent demo_store = (c', s', [])
     \<and> OwnedShards c' = {sh. owned_by (reg_of ''cat'' (ref_view s')) sh ''node-1''} \<and> c_releasing c' = {}"
proof -
  obtain c' s' ws where r: "reconcileOnce demo_etcd fnv64 Background 1 demo_agent demo_store = (c', s', ws)"
    by (metis prod_cases3)
  have ws: "ws = []"
    using round_answered [OF ref.etcd_up_axioms _ r] demo_live [of "''cat''"] by auto
  from reconcileOnce_exact [OF ref.etcd_kv_axioms _ _ r [unfolded ws] refl refl refl] demo_good [of "''cat''"] r ws
  show ?thesis by auto
qed

text \<open>C4: every round of the code, whatever fails in it, is a round of the specification, and it
  leaves the member set alone.\<close>

theorem reconcileOnce_refines:
  assumes "etcd_kv E view ok" and "ok s \<and> canonical_keys (c_prefix c) (view s)" and "c_nodeID c \<noteq> []"
    and "reconcileOnce E xx ctx lease c s = (c', s', ws)"
  shows "round_effect xx lease (sorted_list_of_set (members_view (view s) (c_prefix c))) c
      (reg_of (c_prefix c) (view s)) (ws = []) c' (reg_of (c_prefix c) (view s'))
    \<and> (ok s' \<and> canonical_keys (c_prefix c) (view s'))
    \<and> members_view (view s') (c_prefix c) = members_view (view s) (c_prefix c)"
  using round_spec [OF assms] by simp

theorem reconcileOnce_refines_witness:
  "\<exists>c' s' ws. reconcileOnce demo_etcd fnv64 Background 1 demo_agent demo_store = (c', s', ws)
     \<and> round_effect fnv64 1 (sorted_list_of_set (members_view (ref_view demo_store) ''cat'')) demo_agent
         (reg_of ''cat'' (ref_view demo_store)) (ws = []) c' (reg_of ''cat'' (ref_view s'))"
proof -
  obtain c' s' ws where r: "reconcileOnce demo_etcd fnv64 Background 1 demo_agent demo_store = (c', s', ws)"
    by (metis prod_cases3)
  from reconcileOnce_refines [OF ref.etcd_kv_axioms _ _ r] demo_good [of "''cat''"] r show ?thesis by auto
qed



text \<open>C18: the route map. A node's answer to client discovery lists the live members, sorted, and
  gives for every slot its owner and its term in etcd, both or neither, and changes nothing.\<close>

theorem RouteMap_registry:
  assumes "etcd_kv E view ok" and "ok s \<and> canonical_keys (c_prefix c) (view s)"
    and "RouteMap E ctx c s = (Inr (ms, shardOwner, shardTerm), s')"
  shows "set ms = members_view (view s) (c_prefix c) \<and> sorted ms \<and> distinct ms
    \<and> (\<forall>sh n. shardOwner sh = Some n \<longleftrightarrow> n \<noteq> [] \<and> owned_by (reg_of (c_prefix c) (view s)) sh n)
    \<and> (\<forall>sh. shardTerm sh = (if shardOwner sh = None then None
          else map_option Term (rg_owner (reg_of (c_prefix c) (view s)) sh)))
    \<and> view s' = view s"
proof -
  let ?g = "reg_of (c_prefix c) (view s)"
  obtain s1 where 1: "ListMembers E ctx (c_prefix c) s = (Inr ms, s1)"
    using assms(3) by (auto simp: RouteMap_def Let_def split: prod.splits sum.splits)
  obtain om s2 where 2: "LoadOwnershipMap E ctx (c_prefix c) s1 = (Inr om, s2)"
    using assms(3) 1 by (auto simp: RouteMap_def Let_def split: prod.splits sum.splits)
  have st: "steady ok view (c_prefix c) (members_view (view s) (c_prefix c)) s" using assms(2) by (rule steady_self)
  note l1 = etcd_registry.list_steady [OF registry_of_etcd [OF assms(1)] st 1]
  have g1: "ok s1 \<and> canonical_keys (c_prefix c) (view s1)" "view s1 = view s" using l1 by (auto simp: steady_def)
  have info: "info_outcome om ?g" using info_slots [OF assms(1) g1(1) 2] g1(2) by simp
  have v2: "s' = s2" "view s2 = view s"
    using assms(3) 1 2 etcd_registry.load_views(2) [OF registry_of_etcd [OF assms(1)], of s1 ctx "c_prefix c"] g1
    by (auto simp: RouteMap_def Let_def)
  have wf: "wf_registry ?g" using wf_reg_of etcd_kv.ok_wf [OF assms(1)] assms(2) by blast
  have "shardOwner = (\<lambda>sh. case rg_owner ?g sh of None \<Rightarrow> None | Some i \<Rightarrow> if Owner i \<noteq> [] then Some (Owner i) else None)"
     "shardTerm = (\<lambda>sh. case rg_owner ?g sh of None \<Rightarrow> None | Some i \<Rightarrow> if Owner i \<noteq> [] then Some (Term i) else None)"
    using assms(3) 1 2 info_map_of [OF info wf, of "\<lambda>i. Owner i \<noteq> []" Owner, THEN sym]
      info_map_of [OF info wf, of "\<lambda>i. Owner i \<noteq> []" Term, THEN sym]
    by (auto simp: RouteMap_def Let_def zero_OwnerInfo_def)
  then show ?thesis using etcd_kv.ListMembers_law [OF assms(1) _ 1] assms(2) v2
    by (auto simp: owned_by_def split: option.splits if_splits)
qed

theorem RouteMap_registry_witness:
  "\<exists>ms shardOwner shardTerm s'. RouteMap demo_etcd Background demo_agent demo_store = (Inr (ms, shardOwner, shardTerm), s')
     \<and> shardOwner 5 = None \<and> shardTerm 5 = None"
proof -
  have "\<not> isl (fst (RouteMap demo_etcd Background demo_agent demo_store))" by code_simp
  then obtain ms so st s' where r: "RouteMap demo_etcd Background demo_agent demo_store = (Inr (ms, so, st), s')"
    by (metis prod.collapse sum.collapse(2))
  have "\<not> owned_by (reg_of ''cat'' (ref_view demo_store)) 5 n" for n
    by (simp add: owned_by_def reg_of_def demo_store_def ref_init_def ref_view_def)
  then show ?thesis using RouteMap_registry [OF ref.etcd_kv_axioms _ r] demo_good [of "''cat''"] r by auto
qed

end
