(* ===== verification/Cluster.thy ===== *)
theory Cluster
  imports Rounds
begin

section \<open>Several nodes: the control loops converge\<close>

text \<open>
  The nodes of a cluster run the reconcile rounds of \<open>routing/coordinator.go\<close> against one etcd.
  \<open>cluster_rounds\<close> runs rounds of the listed nodes one after the other, in any order. While etcd
  answers, the leases live and the member set is stable, two rounds of every node settle every
  shard on its rendezvous owner, whatever the starting placement among the members.
\<close>

fun cluster_rounds :: "('s, 'c, 'e) etcd \<Rightarrow> hash64 \<Rightarrow> 'c gctx \<Rightarrow> (nodeid \<Rightarrow> lease_id) \<Rightarrow> nodeid list
    \<Rightarrow> (nodeid \<Rightarrow> coordinator) \<Rightarrow> 's \<Rightarrow> (nodeid \<Rightarrow> coordinator) \<times> 's" where
  "cluster_rounds E xx ctx lease [] cs s = (cs, s)"
| "cluster_rounds E xx ctx lease (n # ns) cs s =
     (case reconcileOnce E xx ctx (lease n) (cs n) s of (c', s', ws) \<Rightarrow>
        cluster_rounds E xx ctx lease ns (cs(n := c')) s')"

definition cluster_ok :: "('s \<Rightarrow> etcd_view) \<Rightarrow> ('s \<Rightarrow> bool) \<Rightarrow> ('s \<Rightarrow> bool) \<Rightarrow> string \<Rightarrow> string set
    \<Rightarrow> (nodeid \<Rightarrow> lease_id) \<Rightarrow> (nodeid \<Rightarrow> coordinator) \<Rightarrow> 's \<Rightarrow> bool" where
  "cluster_ok view ok up p M lease cs s \<longleftrightarrow> (ok s \<and> canonical_keys p (view s)) \<and> up s
     \<and> members_view (view s) p = M \<and> [] \<notin> M
     \<and> (\<forall>n \<in> M. c_prefix (cs n) = p \<and> c_nodeID (cs n) = n \<and> lease n \<in> ev_leases (view s))"

text \<open>A slot that is free or with its rendezvous owner, and a slot settled on that owner's lease.\<close>

definition tidy :: "hash64 \<Rightarrow> string set \<Rightarrow> registry \<Rightarrow> shard \<Rightarrow> bool" where
  "tidy xx M g sh \<longleftrightarrow> map_option Owner (rg_owner g sh) \<in> {None, Some (Rendezvous xx sh (sorted_list_of_set M))}"

definition settled :: "hash64 \<Rightarrow> string set \<Rightarrow> (nodeid \<Rightarrow> lease_id) \<Rightarrow> registry \<Rightarrow> shard \<Rightarrow> bool" where
  "settled xx M lease g sh \<longleftrightarrow> (let r = Rendezvous xx sh (sorted_list_of_set M)
     in map_option (\<lambda>i. (Owner i, Lease i)) (rg_owner g sh) = Some (r, lease r))"

definition publishes :: "hash64 \<Rightarrow> string set \<Rightarrow> nodeid \<Rightarrow> coordinator \<Rightarrow> bool" where
  "publishes xx M n c \<longleftrightarrow> c_releasing c = {}
     \<and> OwnedShards c = {sh. 0 \<le> sh \<and> sh < ShardCount \<and> Rendezvous xx sh (sorted_list_of_set M) = n}"

lemma cluster_step:
  assumes up: "etcd_up E view ok up" and cl: "cluster_ok view ok up p M lease cs s" and n: "n \<in> M"
    and r: "reconcileOnce E xx ctx (lease n) (cs n) s = (c', s', ws)"
  shows "cluster_ok view ok up p M lease (cs(n := c')) s'
    \<and> round_effect xx (lease n) (sorted_list_of_set M) (cs n) (reg_of p (view s)) True c' (reg_of p (view s'))"
proof -
  have kv: "etcd_kv E view ok" using up by (rule etcd_up.axioms(1))
  have c: "c_prefix (cs n) = p" "c_nodeID (cs n) = n" "lease n \<in> ev_leases (view s)" "n \<noteq> []"
    using cl n by (auto simp: cluster_ok_def)
  have st: "live ok view up (c_prefix (cs n)) M (lease n) s"
    using cl c by (simp add: cluster_ok_def live_def steady_def)
  have a: "ws = [] \<and> up s'" using round_answered [OF up st r] .
  have g: "ok s \<and> canonical_keys (c_prefix (cs n)) (view s)" "c_nodeID (cs n) \<noteq> []" using cl c by (auto simp: cluster_ok_def)
  note sp = round_spec [OF kv g r]
  from effect_config [OF sp [THEN conjunct1]] sp a cl c
  show ?thesis by (auto simp: cluster_ok_def)
qed

lemma round_slot:
  assumes "round_effect xx l (sorted_list_of_set M) c g True c' g'" "c_nodeID c = n" "n \<noteq> []" "sh \<in> set shards"
  shows round_tidy: "tidy xx M g sh \<or> owned_by g sh n \<Longrightarrow> tidy xx M g' sh"
    and round_settles: "tidy xx M g sh \<Longrightarrow> Rendezvous xx sh (sorted_list_of_set M) = n \<Longrightarrow> l = lease n \<Longrightarrow> settled xx M lease g' sh"
    and round_settled: "settled xx M lease g sh \<Longrightarrow> l = lease n \<Longrightarrow> settled xx M lease g' sh"
    and round_owned: "tidy xx M g sh \<Longrightarrow> owned_by g' sh n \<longleftrightarrow> Rendezvous xx sh (sorted_list_of_set M) = n"
    and round_other: "\<not> tidy xx M g sh \<Longrightarrow> \<not> owned_by g sh n \<Longrightarrow> rg_owner g' sh = rg_owner g sh"
proof -
  let ?R = "Rendezvous xx sh (sorted_list_of_set M)"
  have e: "map_option Owner (rg_owner g' sh) = next_owner xx n (sorted_list_of_set M) sh (map_option Owner (rg_owner g sh))"
      "owned_by g' sh n \<longrightarrow> map_option Lease (rg_owner g' sh) = Some l"
      "\<not> owned_by g' sh n \<and> \<not> owned_by g sh n \<longrightarrow> rg_owner g' sh = rg_owner g sh"
    using effect_slot [OF assms(1) _ assms(4)] assms(2,3) by simp_all
  show tid: "tidy xx M g' sh" if "tidy xx M g sh \<or> owned_by g sh n"
    using e(1) that by (auto simp: tidy_def next_owner_def owned_by_iff)
  show own: "owned_by g' sh n \<longleftrightarrow> ?R = n" if "tidy xx M g sh"
    using e(1) that unfolding tidy_def next_owner_def owned_by_iff by (cases "?R = n") auto
  show "settled xx M lease g' sh" if "tidy xx M g sh" "?R = n" "l = lease n"
  proof -
    have o: "owned_by g' sh n" using own that by blast
    then have "map_option Lease (rg_owner g' sh) = Some l" using e(2) by blast
    with o show ?thesis using that by (cases "rg_owner g' sh") (auto simp: settled_def owned_by_iff)
  qed
  show "rg_owner g' sh = rg_owner g sh" if "\<not> tidy xx M g sh" "\<not> owned_by g sh n"
  proof -
    have "\<not> owned_by g' sh n" using e(1) that by (auto simp: tidy_def next_owner_def owned_by_iff split: if_splits)
    then show ?thesis using e(3) that(2) by blast
  qed
  show "settled xx M lease g' sh" if s: "settled xx M lease g sh" and l: "l = lease n"
  proof (cases "?R = n")
    case True
    then show ?thesis using \<open>tidy xx M g sh \<Longrightarrow> ?R = n \<Longrightarrow> l = lease n \<Longrightarrow> settled xx M lease g' sh\<close> s l
      by (auto simp: settled_def tidy_def Let_def)
  next
    case False
    have t: "tidy xx M g sh" "\<not> owned_by g sh n" using s False by (auto simp: settled_def tidy_def owned_by_iff Let_def)
    then have "rg_owner g' sh = rg_owner g sh" using own False e(3) by blast
    then show ?thesis using s by (simp add: settled_def)
  qed
qed

text \<open>One pass over every holder makes every slot tidy; a second pass settles it.\<close>

lemma first_pass:
  assumes up: "etcd_up E view ok up" and "cluster_ok view ok up p M lease cs s" "set ns \<subseteq> M"
    and "cluster_rounds E xx ctx lease ns cs s = (cs', s')" and sh: "sh \<in> set shards"
    and "tidy xx M (reg_of p (view s)) sh \<or> (\<exists>n \<in> set ns. owned_by (reg_of p (view s)) sh n)"
  shows "cluster_ok view ok up p M lease cs' s' \<and> tidy xx M (reg_of p (view s')) sh"
  using assms(2-4,6)
proof (induction ns arbitrary: cs s)
  case Nil
  then show ?case by simp
next
  case (Cons n ns)
  obtain c1 s1 ws where r: "reconcileOnce E xx ctx (lease n) (cs n) s = (c1, s1, ws)" by (metis prod_cases3)
  have n: "n \<in> M" "n \<noteq> []" "c_nodeID (cs n) = n" using Cons.prems(1,2) by (auto simp: cluster_ok_def)
  note st = cluster_step [OF up Cons.prems(1) n(1) r]
  have rest: "cluster_rounds E xx ctx lease ns (cs(n := c1)) s1 = (cs', s')" "set ns \<subseteq> M"
    using Cons.prems(2,3) r by simp_all
  note slot = round_slot [OF st [THEN conjunct2] n(3,2) sh]
  have "tidy xx M (reg_of p (view s1)) sh \<or> (\<exists>n \<in> set ns. owned_by (reg_of p (view s1)) sh n)"
  proof (cases "tidy xx M (reg_of p (view s)) sh \<or> owned_by (reg_of p (view s)) sh n")
    case True
    then show ?thesis using slot(1) by blast
  next
    case False
    then have "rg_owner (reg_of p (view s1)) sh = rg_owner (reg_of p (view s)) sh" using slot(5) by blast
    then show ?thesis using False Cons.prems(4) by (auto simp: owned_by_iff)
  qed
  then show ?case by (rule Cons.IH [OF st [THEN conjunct1] rest(2,1)])
qed

lemma round_publishes:
  assumes "round_effect xx l (sorted_list_of_set M) c g True c' g'" "c_nodeID c = n" "n \<noteq> []"
    "wf_registry g" "wf_registry g'" "\<forall>sh \<in> set shards. tidy xx M g sh"
  shows "publishes xx M n c'"
proof -
  have "owned_by g' sh n \<longleftrightarrow> sh \<in> set shards \<and> Rendezvous xx sh (sorted_list_of_set M) = n" for sh
  proof (cases "sh \<in> set shards")
    case True
    then show ?thesis using round_owned [OF assms(1-3) True] assms(6) by blast
  next
    case False
    then have "rg_owner g' sh = None" using assms(5) unfolding wf_registry_def by (metis option.exhaust)
    then show ?thesis using False by (simp add: owned_by_iff del: shards_set)
  qed
  then show ?thesis
    using effect_published [OF assms(1) _ assms(4,5)] assms(2,3) by (auto simp: publishes_def ShardCount_def)
qed

lemma second_pass:
  assumes up: "etcd_up E view ok up" and "cluster_ok view ok up p M lease cs s" "set ns \<subseteq> M"
    and "cluster_rounds E xx ctx lease ns cs s = (cs', s')"
    and "\<forall>sh \<in> set shards. tidy xx M (reg_of p (view s)) sh"
  shows "(\<forall>sh \<in> set shards. settled xx M lease (reg_of p (view s)) sh \<or> Rendezvous xx sh (sorted_list_of_set M) \<in> set ns
        \<longrightarrow> settled xx M lease (reg_of p (view s')) sh)
    \<and> (\<forall>n. publishes xx M n (cs n) \<or> n \<in> set ns \<longrightarrow> publishes xx M n (cs' n))"
  using assms(2-)
proof (induction ns arbitrary: cs s)
  case Nil
  then show ?case by simp
next
  case (Cons n ns)
  obtain c1 s1 ws where r: "reconcileOnce E xx ctx (lease n) (cs n) s = (c1, s1, ws)" by (metis prod_cases3)
  have n: "n \<in> M" "n \<noteq> []" "c_nodeID (cs n) = n" using Cons.prems(1,2) by (auto simp: cluster_ok_def)
  note st = cluster_step [OF up Cons.prems(1) n(1) r]
  have rest: "cluster_rounds E xx ctx lease ns (cs(n := c1)) s1 = (cs', s')" "set ns \<subseteq> M"
    using Cons.prems(2,3) r by simp_all
  note slot = round_slot [OF st [THEN conjunct2] n(3,2)]
  have wf: "wf_registry (reg_of p (view t))" if "ok t" for t
    using wf_reg_of etcd_kv.ok_wf [OF etcd_up.axioms(1) [OF up] that] by blast
  have "ok s" "ok s1" using Cons.prems(1) st by (auto simp: cluster_ok_def)
  then have pub: "publishes xx M n c1"
    using round_publishes [OF st [THEN conjunct2] n(3,2) wf wf] Cons.prems(4) by blast
  have tidy1: "\<forall>sh \<in> set shards. tidy xx M (reg_of p (view s1)) sh"
    using slot(1) Cons.prems(4) by blast
  have set1: "settled xx M lease (reg_of p (view s1)) sh"
    if "sh \<in> set shards" "settled xx M lease (reg_of p (view s)) sh \<or> Rendezvous xx sh (sorted_list_of_set M) = n" for sh
    using slot(2) [OF that(1)] slot(3) [OF that(1)] that Cons.prems(4) by blast
  have ih: "(\<forall>sh \<in> set shards. settled xx M lease (reg_of p (view s1)) sh \<or> Rendezvous xx sh (sorted_list_of_set M) \<in> set ns
        \<longrightarrow> settled xx M lease (reg_of p (view s')) sh)
    \<and> (\<forall>k. publishes xx M k ((cs(n := c1)) k) \<or> k \<in> set ns \<longrightarrow> publishes xx M k (cs' k))"
    by (rule Cons.IH [OF st [THEN conjunct1] rest(2,1) tidy1])
  have "publishes xx M k (cs' k)" if "publishes xx M k (cs k) \<or> k \<in> set (n # ns)" for k
    using ih [THEN conjunct2, rule_format, of k] that pub by (cases "k = n") auto
  then show ?case using ih [THEN conjunct1] set1 by auto
qed

lemma cluster_rounds_append:
  "cluster_rounds E xx ctx lease (as @ bs) cs s = (case cluster_rounds E xx ctx lease as cs s of
     (cs1, s1) \<Rightarrow> cluster_rounds E xx ctx lease bs cs1 s1)"
  by (induction as arbitrary: cs s) (auto split: prod.splits)

text \<open>C2: convergence. With etcd answering, live leases and a stable member set, start from any
  placement of the shards among the members (or on nobody) and any views of the nodes; after
  every member has run a round and then every member has run a round again, in any order, every
  shard is held by its rendezvous owner on that owner's lease, and every node publishes exactly its own
  shards with no releasing mark.\<close>

theorem cluster_converges:
  assumes "etcd_up E view ok up" and "cluster_ok view ok up p M lease cs s" and "M \<noteq> {}"
    and "\<forall>sh i. rg_owner (reg_of p (view s)) sh = Some i \<longrightarrow> Owner i \<in> M"
    and "set pass1 = M" and "set pass2 = M"
    and "cluster_rounds E xx ctx lease (pass1 @ pass2) cs s = (cs', s')"
  shows "(\<forall>sh. 0 \<le> sh \<and> sh < ShardCount \<longrightarrow> settled xx M lease (reg_of p (view s')) sh)
    \<and> (\<forall>n \<in> M. publishes xx M n (cs' n))"
proof -
  obtain cs1 s1 where p1: "cluster_rounds E xx ctx lease pass1 cs s = (cs1, s1)" by force
  then have p2: "cluster_rounds E xx ctx lease pass2 cs1 s1 = (cs', s')"
    using assms(7) by (simp add: cluster_rounds_append)
  have t1: "cluster_ok view ok up p M lease cs1 s1 \<and> tidy xx M (reg_of p (view s1)) sh" if "sh \<in> set shards" for sh
  proof (rule first_pass [OF assms(1,2) _ p1 that])
    show "set pass1 \<subseteq> M" using assms(5) by simp
    show "tidy xx M (reg_of p (view s)) sh \<or> (\<exists>n \<in> set pass1. owned_by (reg_of p (view s)) sh n)"
      using assms(4,5) by (cases "rg_owner (reg_of p (view s)) sh") (auto simp: tidy_def owned_by_iff)
  qed
  have "0 \<in> set shards" by simp
  then have c1: "cluster_ok view ok up p M lease cs1 s1" using t1 by blast
  have fin: "finite M" using assms(5) by auto
  then have "Rendezvous xx sh (sorted_list_of_set M) \<in> M" for sh
    using Rendezvous_mem [of "sorted_list_of_set M" xx sh] assms(2,3) by (auto simp: cluster_ok_def)
  then show ?thesis
    using second_pass [OF assms(1) c1 _ p2] t1 assms(6) by (auto simp: ShardCount_def)
qed

text \<open>Two nodes that have joined an empty store.\<close>

abbreviation demo_join :: "nodeid \<Rightarrow> ref_state \<Rightarrow> (ref_err + membership) \<times> ref_state" where
  "demo_join n \<equiv> JoinMembership demo_etcd Background ''cat'' n 3 100"

definition demo_cluster :: ref_state where
  "demo_cluster = snd (demo_join ''node-2'' (snd (demo_join ''node-1'' (ref_init []))))"

definition demo_agents :: "nodeid \<Rightarrow> coordinator" where
  "demo_agents n = NewCoordinator ''cat'' n 3 1000000000"

definition demo_lease :: "nodeid \<Rightarrow> lease_id" where
  "demo_lease n = (if n = ''node-1'' then 1 else 2)"

lemma demo_cluster_view:
  "ref_ok demo_cluster \<and> ref_up demo_cluster \<and> ev_leases (ref_view demo_cluster) = {1, 2}
   \<and> dom (ev_kvs (ref_view demo_cluster)) = {membersPrefix ''cat'' @ ''node-1'', membersPrefix ''cat'' @ ''node-2''}"
proof -
  have 1: "fst (demo_join ''node-1'' (ref_init [])) = Inr (joined_member\<lparr>m_nodeID := ''node-1'', m_leaseID := 1\<rparr>)"
    and 2: "fst (demo_join ''node-2'' (snd (demo_join ''node-1'' (ref_init [])))) = Inr (joined_member\<lparr>m_nodeID := ''node-2'', m_leaseID := 2\<rparr>)"
    and up: "ref_up demo_cluster"
    by code_simp+
  note c1 = prod.collapse [of "demo_join ''node-1'' (ref_init [])", symmetric, unfolded 1]
  note j1 = ref.Join_success [OF ref_init_ok c1]
  note c2 = prod.collapse [of "demo_join ''node-2'' (snd (demo_join ''node-1'' (ref_init [])))", symmetric, unfolded 2]
  note j2 = ref.Join_success [OF j1 [THEN conjunct1] c2]
  have v0: "ev_kvs (ref_view (ref_init [])) = Map.empty" "ev_leases (ref_view (ref_init [])) = {}"
    by (simp_all add: ref_view_def ref_init_def)
  show ?thesis
    using j1 j2 up unfolding demo_cluster_def [symmetric] by (auto simp: v0)
qed

lemma demo_cluster_ok:
  "cluster_ok ref_view ref_ok ref_up ''cat'' {''node-1'', ''node-2''} demo_lease demo_agents demo_cluster"
  "rg_owner (reg_of ''cat'' (ref_view demo_cluster)) sh = None"
proof -
  note v = demo_cluster_view
  have "ev_kvs (ref_view demo_cluster) (shardKey p sh) = None" if "p = ''cat''" for p sh
    using v member_shard_disjoint [of "''cat''" _ sh] that by (metis domIff insertE singletonD)
  then show "rg_owner (reg_of ''cat'' (ref_view demo_cluster)) sh = None" by (simp add: reg_of_def)
  have "members_view (ref_view demo_cluster) ''cat'' = {n. membersPrefix ''cat'' @ n \<in> dom (ev_kvs (ref_view demo_cluster))}"
    by (auto simp: members_view_def)
  then have "members_view (ref_view demo_cluster) ''cat'' = {''node-1'', ''node-2''}" using v by auto
  moreover have "canonical_keys ''cat'' (ref_view demo_cluster)"
    using v member_shard_keys [of "''cat''"] unfolding canonical_keys_def by auto
  ultimately show "cluster_ok ref_view ref_ok ref_up ''cat'' {''node-1'', ''node-2''} demo_lease demo_agents demo_cluster"
    using v by (auto simp: cluster_ok_def demo_lease_def demo_agents_def NewCoordinator_def)
qed

theorem cluster_converges_witness:
  "\<exists>cs' s'. cluster_rounds demo_etcd fnv64 Background demo_lease ([''node-1'', ''node-2''] @ [''node-2'', ''node-1'']) demo_agents demo_cluster = (cs', s')
     \<and> settled fnv64 {''node-1'', ''node-2''} demo_lease (reg_of ''cat'' (ref_view s')) 7
     \<and> publishes fnv64 {''node-1'', ''node-2''} ''node-2'' (cs' ''node-2'')"
proof -
  obtain cs' s' where r: "cluster_rounds demo_etcd fnv64 Background demo_lease
      ([''node-1'', ''node-2''] @ [''node-2'', ''node-1'']) demo_agents demo_cluster = (cs', s')" by force
  have "(\<forall>sh. 0 \<le> sh \<and> sh < ShardCount \<longrightarrow> settled fnv64 {''node-1'', ''node-2''} demo_lease (reg_of ''cat'' (ref_view s')) sh)
    \<and> (\<forall>n \<in> {''node-1'', ''node-2''}. publishes fnv64 {''node-1'', ''node-2''} n (cs' n))"
    by (rule cluster_converges [OF ref.etcd_up_axioms demo_cluster_ok(1) _ _ _ _ r]) (auto simp: demo_cluster_ok(2))
  then show ?thesis using r by (simp del: cluster_rounds.simps add: ShardCount_def)
qed

end
