(* ===== verification/Nsmeta.thy ===== *)
theory Nsmeta
  imports GoStd
begin

section \<open>Namespace and term on the wire (nsmeta/nsmeta.go)\<close>

text \<open>
  The two stamps a client puts on an outgoing request and the two reads on the service side.
  gRPC's metadata package is not part of this repository: its calls are the record \<open>grpc_md\<close>, and
  the locale \<open>grpc_metadata\<close> states what its documentation promises about a stamped context that
  is delivered to a server: keys are lower-cased, the values of a key arrive in the order they
  were appended, printable values arrive as they are.
\<close>

record ('ctx, 'md) grpc_md =
  md_AppendToOutgoingContext :: "'ctx \<Rightarrow> (string \<times> string) list \<Rightarrow> 'ctx"
  md_FromIncomingContext :: "'ctx \<Rightarrow> 'md option"
  md_Get :: "'md \<Rightarrow> string \<Rightarrow> string list"

definition Key :: string where
  "Key = ''x-milvus-catalog-namespace''"

definition TermKey :: string where
  "TermKey = ''x-milvus-catalog-term''"

definition Default :: string where
  "Default = ''_default''"

definition With :: "('ctx, 'md) grpc_md \<Rightarrow> 'ctx \<Rightarrow> string \<Rightarrow> 'ctx" where
  "With G ctx namespace = md_AppendToOutgoingContext G ctx [(Key, namespace)]"

text \<open>\<open>FormatInt(term, 10)\<close> and \<open>ParseInt(s, 10, 64)\<close> are the decimal conversions of \<open>int64\<close>.\<close>

definition WithTerm :: "('ctx, 'md) grpc_md \<Rightarrow> 'ctx \<Rightarrow> string \<Rightarrow> term_no \<Rightarrow> 'ctx" where
  "WithTerm G ctx namespace t =
     md_AppendToOutgoingContext G ctx [(Key, namespace), (TermKey, strconv_FormatInt t)]"

definition TermFrom :: "('ctx, 'md) grpc_md \<Rightarrow> 'ctx \<Rightarrow> term_no" where
  "TermFrom G ctx =
     (case md_FromIncomingContext G ctx of None \<Rightarrow> 0
      | Some md \<Rightarrow>
          (let vals = md_Get G md TermKey
           in if vals = [] \<or> hd vals = [] then 0
              else (case strconv_Atoi (hd vals) of None \<Rightarrow> 0 | Some t \<Rightarrow> t)))"

definition From :: "('ctx, 'md) grpc_md \<Rightarrow> 'ctx \<Rightarrow> string" where
  "From G ctx =
     (case md_FromIncomingContext G ctx of None \<Rightarrow> Default
      | Some md \<Rightarrow>
          (let vals = md_Get G md Key in if vals = [] \<or> hd vals = [] then Default else hd vals))"

subsection \<open>What gRPC promises\<close>

text \<open>Values that a header carries unchanged: printable ASCII without blanks. Keys of
  application metadata: lower case already, not reserved, not binary.\<close>

definition header_safe :: "string \<Rightarrow> bool" where
  "header_safe v = list_all (\<lambda>c. 33 \<le> (of_char c :: nat) \<and> (of_char c :: nat) \<le> 126) v"

definition vals_of :: "(string \<times> string) list \<Rightarrow> string \<Rightarrow> string list" where
  "vals_of kvs k = map snd (filter (\<lambda>kv. fst kv = k) kvs)"

locale grpc_metadata =
  fixes G :: "('ctx, 'md) grpc_md"
    and outgoing :: "'ctx \<Rightarrow> (string \<times> string) list"   \<comment> \<open>the pairs appended so far\<close>
    and deliver :: "'ctx \<Rightarrow> 'ctx"                       \<comment> \<open>the context the server's handler sees\<close>
  assumes append: "set (map fst kvs) \<subseteq> {Key, TermKey} \<Longrightarrow> outgoing (md_AppendToOutgoingContext G ctx kvs) = outgoing ctx @ kvs"
    and delivered: "outgoing ctx \<noteq> [] \<Longrightarrow> \<forall>kv \<in> set (outgoing ctx). header_safe (snd kv) \<Longrightarrow>
        \<exists>md. md_FromIncomingContext G (deliver ctx) = Some md
          \<and> (\<forall>k \<in> {Key, TermKey}. md_Get G md k = vals_of (outgoing ctx) k)"
begin

lemma From_delivered:
  assumes "outgoing ctx \<noteq> []" "\<forall>kv \<in> set (outgoing ctx). header_safe (snd kv)"
  shows "From G (deliver ctx) = (case vals_of (outgoing ctx) Key of [] \<Rightarrow> Default | v # _ \<Rightarrow> if v = [] then Default else v)"
    "TermFrom G (deliver ctx) = (case vals_of (outgoing ctx) TermKey of [] \<Rightarrow> 0
       | v # _ \<Rightarrow> (case strconv_Atoi v of None \<Rightarrow> 0 | Some t \<Rightarrow> t))"
proof -
  obtain md where md: "md_FromIncomingContext G (deliver ctx) = Some md"
    "md_Get G md Key = vals_of (outgoing ctx) Key" "md_Get G md TermKey = vals_of (outgoing ctx) TermKey"
    using delivered [OF assms] by auto
  show "From G (deliver ctx) = (case vals_of (outgoing ctx) Key of [] \<Rightarrow> Default | v # _ \<Rightarrow> if v = [] then Default else v)"
    by (simp add: From_def md Let_def split: list.split)
  have "strconv_Atoi [] = None" by code_simp
  then show "TermFrom G (deliver ctx) = (case vals_of (outgoing ctx) TermKey of [] \<Rightarrow> 0
       | v # _ \<Rightarrow> (case strconv_Atoi v of None \<Rightarrow> 0 | Some t \<Rightarrow> t))"
    by (simp add: TermFrom_def md Let_def split: list.split)
qed

end

text \<open>A context with explicit outgoing and incoming pairs has these laws.\<close>

record ref_ctx =
  rx_out :: "(string \<times> string) list"
  rx_in :: "(string \<times> string) list option"

definition ref_md :: "(ref_ctx, (string \<times> string) list) grpc_md" where
  "ref_md = \<lparr>md_AppendToOutgoingContext = (\<lambda>ctx kvs. ctx\<lparr>rx_out := rx_out ctx @ kvs\<rparr>),
     md_FromIncomingContext = rx_in, md_Get = vals_of\<rparr>"

definition ref_deliver :: "ref_ctx \<Rightarrow> ref_ctx" where
  "ref_deliver ctx = \<lparr>rx_out = [], rx_in = (if rx_out ctx = [] then None else Some (rx_out ctx))\<rparr>"

definition ref_ctx0 :: ref_ctx where
  "ref_ctx0 = \<lparr>rx_out = [], rx_in = None\<rparr>"

interpretation refmd: grpc_metadata ref_md rx_out ref_deliver
  by unfold_locales (auto simp: ref_md_def ref_deliver_def)

subsection \<open>Properties of the stamps\<close>

lemma Itoa_header_safe: "header_safe (strconv_Itoa i)"
proof -
  have "33 \<le> (of_char c :: nat) \<and> (of_char c :: nat) \<le> 126" if "c \<in> set (nat_digits n)" for c n
    using nat_digits_set [OF that] by (auto simp: digit_char_def)
  then show ?thesis by (auto simp: header_safe_def strconv_Itoa_def list_all_iff)
qed

lemma keys_differ [simp]: "Key \<noteq> TermKey" "TermKey \<noteq> Key"
  by (simp_all add: Key_def TermKey_def)

definition unstamped :: "(string \<times> string) list \<Rightarrow> bool" where
  "unstamped kvs \<longleftrightarrow> (\<forall>kv \<in> set kvs. fst kv \<notin> {Key, TermKey} \<and> header_safe (snd kv))"

lemma unstamped_vals: "unstamped kvs \<Longrightarrow> k \<in> {Key, TermKey} \<Longrightarrow> vals_of (kvs @ rest) k = vals_of rest k"
  by (auto simp: unstamped_def vals_of_def filter_empty_conv)

context grpc_metadata
begin

lemma WithTerm_outgoing: "outgoing (WithTerm G ctx ns t) = outgoing ctx @ [(Key, ns), (TermKey, strconv_Itoa t)]"
  by (simp add: WithTerm_def append)

lemma With_outgoing: "outgoing (With G ctx ns) = outgoing ctx @ [(Key, ns)]"
  by (simp add: With_def append)

lemma stamped_read:
  assumes "unstamped (outgoing ctx)" "header_safe ns" "ns \<noteq> []" "int64_range t"
  shows "From G (deliver (WithTerm G ctx ns t)) = ns \<and> TermFrom G (deliver (WithTerm G ctx ns t)) = t"
proof -
  have safe: "\<forall>kv \<in> set (outgoing (WithTerm G ctx ns t)). header_safe (snd kv)" "outgoing (WithTerm G ctx ns t) \<noteq> []"
    using assms Itoa_header_safe by (auto simp: WithTerm_outgoing unstamped_def)
  have v: "vals_of (outgoing (WithTerm G ctx ns t)) Key = [ns]" "vals_of (outgoing (WithTerm G ctx ns t)) TermKey = [strconv_Itoa t]"
    using unstamped_vals [OF assms(1)] by (simp_all add: WithTerm_outgoing vals_of_def)
  show ?thesis using From_delivered [OF safe(2,1)] v assms(3,4) by (simp add: Atoi_Itoa)
qed

lemma restamped_read:
  assumes "unstamped (outgoing ctx)" "header_safe ns" "header_safe ns'" "ns \<noteq> []" "int64_range t"
  shows "From G (deliver (WithTerm G (With G ctx ns) ns' t)) = ns \<and> TermFrom G (deliver (WithTerm G (With G ctx ns) ns' t)) = t"
proof -
  let ?c = "WithTerm G (With G ctx ns) ns' t"
  have o: "outgoing ?c = outgoing ctx @ [(Key, ns), (Key, ns'), (TermKey, strconv_Itoa t)]"
    by (simp add: WithTerm_outgoing With_outgoing)
  have safe: "\<forall>kv \<in> set (outgoing ?c). header_safe (snd kv)" "outgoing ?c \<noteq> []"
    using assms Itoa_header_safe by (auto simp: o unstamped_def)
  have v: "vals_of (outgoing ?c) Key = [ns, ns']" "vals_of (outgoing ?c) TermKey = [strconv_Itoa t]"
    using unstamped_vals [OF assms(1)] by (simp_all add: o vals_of_def)
  show ?thesis using From_delivered [OF safe(2,1)] v assms(4,5) by (simp add: Atoi_Itoa)
qed

end



text \<open>C0: the first stamp wins. A context the caller has already stamped with a namespace keeps
  it: a later stamp of another namespace with a term reaches the service as the first namespace
  with the second stamp's term.\<close>

theorem first_stamp_wins:
  assumes "grpc_metadata G outgoing deliver" and "unstamped (outgoing ctx)"
    and "header_safe ns" and "header_safe ns'" and "ns \<noteq> []" and "int64_range t"
  shows "From G (deliver (WithTerm G (With G ctx ns) ns' t)) = ns
    \<and> TermFrom G (deliver (WithTerm G (With G ctx ns) ns' t)) = t"
  by (rule grpc_metadata.restamped_read [OF assms])

theorem first_stamp_wins_witness:
  "From ref_md (ref_deliver (WithTerm ref_md (With ref_md ref_ctx0 ''a'') ''b'' 9)) = ''a''
   \<and> TermFrom ref_md (ref_deliver (WithTerm ref_md (With ref_md ref_ctx0 ''a'') ''b'' 9)) = 9"
  by (rule first_stamp_wins [OF refmd.grpc_metadata_axioms])
     (simp_all add: ref_ctx0_def unstamped_def header_safe_def int64_range_def)

text \<open>C0: an unstamped or unreadable request falls back: the default namespace and term 0, which
  opts out of fencing. A term that is no \<open>int64\<close> decimal reads as 0 as well.\<close>

theorem stamp_fallbacks:
  assumes "md_FromIncomingContext G ctx = None
    \<or> (\<exists>md. md_FromIncomingContext G ctx = Some md \<and> (md_Get G md Key = [] \<or> hd (md_Get G md Key) = [])
        \<and> (md_Get G md TermKey = [] \<or> strconv_Atoi (hd (md_Get G md TermKey)) = None))"
  shows "From G ctx = Default \<and> TermFrom G ctx = 0"
  using assms by (auto simp: From_def TermFrom_def Let_def)

theorem stamp_fallbacks_witness:
  "From ref_md ref_ctx0 = Default \<and> TermFrom ref_md ref_ctx0 = 0
   \<and> From ref_md (ref_ctx0\<lparr>rx_in := Some [(TermKey, ''12x'')]\<rparr>) = Default
   \<and> TermFrom ref_md (ref_ctx0\<lparr>rx_in := Some [(TermKey, ''12x'')]\<rparr>) = 0"
proof -
  have a: "strconv_Atoi ''12x'' = None" by code_simp
  show ?thesis
    using stamp_fallbacks [of ref_md ref_ctx0] stamp_fallbacks [of ref_md "ref_ctx0\<lparr>rx_in := Some [(TermKey, ''12x'')]\<rparr>"] a
    by (simp add: ref_md_def ref_ctx0_def vals_of_def)
qed

end
