(* ===== verification/Router.thy ===== *)
theory Router
  imports Nsmeta Placement
begin

section \<open>Router: client-side discovery and redirect (client/router.go)\<close>

text \<open>
  The router's state as a record, the connection pool, the route map refresh, and the retry loop
  with its classification of errors. The network is a parameter: \<open>net\<close> is the record of what the
  router calls in gRPC, in the generated catalog client and in Milvus's \<open>merr\<close> package, each a
  function of a world state \<open>'w\<close> that also stands for everything the callee does. The order in
  which Go ranges over a map is a parameter of the record too. \<open>fn\<close> is the caller's closure;
  \<open>'a\<close> are the variables it captures. The mutex makes each locked section one step; the
  functions here are those of one caller at a time.
\<close>

subsection \<open>The network\<close>

datatype grpc_code = Unavailable | DeadlineExceeded | OtherCode nat

record 'st route_resp =
  rr_Status :: 'st
  rr_ShardOwner :: "(int \<times> string) list"    \<comment> \<open>the map's entries in the order \<open>range\<close> yields them\<close>
  rr_ShardTerm :: "(int \<times> term_no) list"

record ('w, 'ctx, 'conn, 'creds, 'st, 'e) net =
  nt_NewClient :: "string \<Rightarrow> 'creds \<Rightarrow> 'w \<Rightarrow> ('e + 'conn) \<times> 'w"
  nt_Close :: "'conn \<Rightarrow> 'w \<Rightarrow> 'w"
  nt_GetRouteMap :: "'ctx \<Rightarrow> 'conn \<Rightarrow> 'w \<Rightarrow> ('e + 'st route_resp) \<times> 'w"
  nt_ctx_Err :: "'ctx \<Rightarrow> 'w \<Rightarrow> 'e option"
  nt_merr_Error :: "'st \<Rightarrow> 'e option"
  nt_IsRetryableErr :: "'e \<Rightarrow> bool"
  nt_status_Code :: "'e \<Rightarrow> grpc_code"
  nt_WrapErrServiceUnavailable :: "string \<Rightarrow> 'e"
  nt_range_owners :: "(shard \<rightharpoonup> string) \<Rightarrow> 'w \<Rightarrow> (shard \<times> string) list"
  nt_range_conns :: "(string \<rightharpoonup> 'conn) \<Rightarrow> 'w \<Rightarrow> (string \<times> 'conn) list"

subsection \<open>State and pool\<close>

record ('conn, 'creds) router =
  r_bootstrap :: "string list"
  r_creds :: 'creds
  r_shardOwner :: "shard \<rightharpoonup> string"
  r_shardTerm :: "shard \<rightharpoonup> term_no"
  r_conns :: "string \<rightharpoonup> 'conn"

text \<open>\<open>insecure\<close> is the value of \<open>insecure.NewCredentials()\<close>.\<close>

definition NewRouter :: "'creds \<Rightarrow> string list \<Rightarrow> ('conn, 'creds) router" where
  "NewRouter insecure bootstrap = \<lparr>r_bootstrap = bootstrap, r_creds = insecure,
     r_shardOwner = Map.empty, r_shardTerm = Map.empty, r_conns = Map.empty\<rparr>"

definition WithCredentials :: "('conn, 'creds) router \<Rightarrow> 'creds \<Rightarrow> ('conn, 'creds) router" where
  "WithCredentials r creds = r\<lparr>r_creds := creds\<rparr>"

definition Router_Close :: "('w, 'ctx, 'conn, 'creds, 'st, 'e) net \<Rightarrow> ('conn, 'creds) router \<Rightarrow> 'w
    \<Rightarrow> ('conn, 'creds) router \<times> 'w" where
  "Router_Close N r w =
     (r\<lparr>r_conns := Map.empty\<rparr>, foldl (\<lambda>w (addr, c). nt_Close N c w) w (nt_range_conns N (r_conns r) w))"

text \<open>The addresses to keep, and the loop over the pool.\<close>

definition live_addrs :: "(shard \<times> string) list \<Rightarrow> string list \<Rightarrow> string set" where
  "live_addrs owners bootstrap = set (map snd owners) \<union> set bootstrap"

fun evict_loop :: "('w, 'ctx, 'conn, 'creds, 'st, 'e) net \<Rightarrow> string set \<Rightarrow> (string \<times> 'conn) list
    \<Rightarrow> (string \<rightharpoonup> 'conn) \<Rightarrow> 'w \<Rightarrow> (string \<rightharpoonup> 'conn) \<times> 'w" where
  "evict_loop N live [] conns w = (conns, w)"
| "evict_loop N live ((addr, c) # rest) conns w =
     (if addr \<notin> live then evict_loop N live rest (conns(addr := None)) (nt_Close N c w)
      else evict_loop N live rest conns w)"

definition evictStaleConnsLocked :: "('w, 'ctx, 'conn, 'creds, 'st, 'e) net \<Rightarrow> (shard \<rightharpoonup> string)
    \<Rightarrow> ('conn, 'creds) router \<Rightarrow> 'w \<Rightarrow> ('conn, 'creds) router \<times> 'w" where
  "evictStaleConnsLocked N owner r w =
     (case evict_loop N (live_addrs (nt_range_owners N owner w) (r_bootstrap r))
             (nt_range_conns N (r_conns r) w) (r_conns r) w of
        (conns, w1) \<Rightarrow> (r\<lparr>r_conns := conns\<rparr>, w1))"

definition Router_conn :: "('w, 'ctx, 'conn, 'creds, 'st, 'e) net \<Rightarrow> ('conn, 'creds) router \<Rightarrow> string \<Rightarrow> 'w
    \<Rightarrow> ('e + 'conn) \<times> ('conn, 'creds) router \<times> 'w" where
  "Router_conn N r addr w =
     (case r_conns r addr of
        Some c \<Rightarrow> (Inr c, r, w)
      | None \<Rightarrow>
          (case nt_NewClient N addr (r_creds r) w of
             (Inl err, w1) \<Rightarrow> (Inl err, r, w1)
           | (Inr c, w1) \<Rightarrow> (Inr c, r\<lparr>r_conns := (r_conns r)(addr \<mapsto> c)\<rparr>, w1)))"

subsection \<open>Refresh\<close>

fun refresh_loop :: "('w, 'ctx, 'conn, 'creds, 'st, 'e) net \<Rightarrow> 'ctx \<Rightarrow> string list \<Rightarrow> 'e option
    \<Rightarrow> ('conn, 'creds) router \<Rightarrow> 'w \<Rightarrow> 'e option \<times> ('conn, 'creds) router \<times> 'w" where
  "refresh_loop N ctx [] lastErr r w =
     (case lastErr of
        None \<Rightarrow> (Some (nt_WrapErrServiceUnavailable N ''no catalog node reachable for route map''), r, w)
      | Some err \<Rightarrow> (Some err, r, w))"
| "refresh_loop N ctx (addr # addrs) lastErr r w =
     (case Router_conn N r addr w of
        (Inl err, r1, w1) \<Rightarrow> refresh_loop N ctx addrs (Some err) r1 w1
      | (Inr c, r1, w1) \<Rightarrow>
          (case nt_GetRouteMap N ctx c w1 of
             (Inl err, w2) \<Rightarrow> refresh_loop N ctx addrs (Some err) r1 w2
           | (Inr resp, w2) \<Rightarrow>
               (case nt_merr_Error N (rr_Status resp) of
                  Some err \<Rightarrow> refresh_loop N ctx addrs (Some err) r1 w2
                | None \<Rightarrow>
                    (let owner = map_copy (rr_ShardOwner resp) Map.empty;
                         tm = map_copy (rr_ShardTerm resp) Map.empty
                     in case evictStaleConnsLocked N owner (r1\<lparr>r_shardOwner := owner, r_shardTerm := tm\<rparr>) w2 of
                          (r2, w3) \<Rightarrow> (None, r2, w3)))))"

definition Refresh :: "('w, 'ctx, 'conn, 'creds, 'st, 'e) net \<Rightarrow> 'ctx \<Rightarrow> ('conn, 'creds) router \<Rightarrow> 'w
    \<Rightarrow> 'e option \<times> ('conn, 'creds) router \<times> 'w" where
  "Refresh N ctx r w =
     refresh_loop N ctx (r_bootstrap r @ map snd (nt_range_owners N (r_shardOwner r) w)) None r w"

definition Router_OwnerOf :: "hash64 \<Rightarrow> ('conn, 'creds) router \<Rightarrow> string \<Rightarrow> string" where
  "Router_OwnerOf xx r namespace = map_get [] (r_shardOwner r) (ShardOf xx namespace)"

definition routeFor :: "hash64 \<Rightarrow> ('conn, 'creds) router \<Rightarrow> string \<Rightarrow> string \<times> term_no" where
  "routeFor xx r namespace =
     (let shard = ShardOf xx namespace in (map_get [] (r_shardOwner r) shard, map_get 0 (r_shardTerm r) shard))"

subsection \<open>The retry loop\<close>

definition isRetriableRejection :: "('w, 'ctx, 'conn, 'creds, 'st, 'e) net \<Rightarrow> 'e \<Rightarrow> bool" where
  "isRetriableRejection N err = nt_IsRetryableErr N err"

definition isAmbiguousTransport :: "('w, 'ctx, 'conn, 'creds, 'st, 'e) net \<Rightarrow> 'e \<Rightarrow> bool" where
  "isAmbiguousTransport N err = (case nt_status_Code N err of
     Unavailable \<Rightarrow> True | DeadlineExceeded \<Rightarrow> True | OtherCode _ \<Rightarrow> False)"

text \<open>One pass through the loop body: it returns from the function, or it continues with a
  \<open>lastErr\<close>. \<open>send\<close> is the part after an owner is known.\<close>

datatype 'e pass = Return "'e option" | Continue 'e

type_synonym ('ctx, 'conn, 'a, 'w, 'e) call = "'ctx \<Rightarrow> 'conn \<Rightarrow> 'a \<Rightarrow> 'w \<Rightarrow> 'e option \<times> 'a \<times> 'w"

definition send :: "('w, 'ctx, 'conn, 'creds, 'st, 'e) net \<Rightarrow> ('ctx, 'md) grpc_md \<Rightarrow> 'ctx \<Rightarrow> string
    \<Rightarrow> ('ctx, 'conn, 'a, 'w, 'e) call \<Rightarrow> bool \<Rightarrow> string \<Rightarrow> term_no \<Rightarrow> ('conn, 'creds) router \<Rightarrow> 'a \<Rightarrow> 'w
    \<Rightarrow> 'e pass \<times> ('conn, 'creds) router \<times> 'a \<times> 'w" where
  "send N G ctx namespace fn retryAmbiguous owner t r a w =
     (case Router_conn N r owner w of
        (Inl err, r1, w1) \<Rightarrow> (case Refresh N ctx r1 w1 of (_, r2, w2) \<Rightarrow> (Continue err, r2, a, w2))
      | (Inr c, r1, w1) \<Rightarrow>
          (case fn (WithTerm G ctx namespace t) c a w1 of
             (None, a1, w2) \<Rightarrow> (Return None, r1, a1, w2)
           | (Some err, a1, w2) \<Rightarrow>
               if isRetriableRejection N err \<or> (retryAmbiguous \<and> isAmbiguousTransport N err)
               then (case Refresh N ctx r1 w2 of (_, r2, w3) \<Rightarrow> (Continue err, r2, a1, w3))
               else (Return (Some err), r1, a1, w2)))"

definition attempt :: "('w, 'ctx, 'conn, 'creds, 'st, 'e) net \<Rightarrow> ('ctx, 'md) grpc_md \<Rightarrow> hash64 \<Rightarrow> 'ctx \<Rightarrow> string
    \<Rightarrow> ('ctx, 'conn, 'a, 'w, 'e) call \<Rightarrow> bool \<Rightarrow> ('conn, 'creds) router \<Rightarrow> 'a \<Rightarrow> 'w
    \<Rightarrow> 'e pass \<times> ('conn, 'creds) router \<times> 'a \<times> 'w" where
  "attempt N G xx ctx namespace fn retryAmbiguous r a w =
     (case nt_ctx_Err N ctx w of
        Some err \<Rightarrow> (Return (Some err), r, a, w)
      | None \<Rightarrow>
          (case routeFor xx r namespace of (owner, t) \<Rightarrow>
             if owner = [] then
               (case Refresh N ctx r w of
                  (Some err, r1, w1) \<Rightarrow> (Continue err, r1, a, w1)
                | (None, r1, w1) \<Rightarrow>
                    (case routeFor xx r1 namespace of (owner, t) \<Rightarrow>
                       if owner = [] then
                         (Continue (nt_WrapErrServiceUnavailable N (''namespace '' @ namespace @ '' has no owner yet'')), r1, a, w1)
                       else send N G ctx namespace fn retryAmbiguous owner t r1 a w1))
             else send N G ctx namespace fn retryAmbiguous owner t r a w))"

fun attempts :: "nat \<Rightarrow> ('w, 'ctx, 'conn, 'creds, 'st, 'e) net \<Rightarrow> ('ctx, 'md) grpc_md \<Rightarrow> hash64 \<Rightarrow> 'ctx \<Rightarrow> string
    \<Rightarrow> ('ctx, 'conn, 'a, 'w, 'e) call \<Rightarrow> bool \<Rightarrow> 'e option \<Rightarrow> ('conn, 'creds) router \<Rightarrow> 'a \<Rightarrow> 'w
    \<Rightarrow> 'e option \<times> ('conn, 'creds) router \<times> 'a \<times> 'w" where
  "attempts 0 N G xx ctx namespace fn retryAmbiguous lastErr r a w = (lastErr, r, a, w)"
| "attempts (Suc k) N G xx ctx namespace fn retryAmbiguous lastErr r a w =
     (case attempt N G xx ctx namespace fn retryAmbiguous r a w of
        (Return res, r1, a1, w1) \<Rightarrow> (res, r1, a1, w1)
      | (Continue err, r1, a1, w1) \<Rightarrow> attempts k N G xx ctx namespace fn retryAmbiguous (Some err) r1 a1 w1)"

definition maxAttempts :: nat where
  "maxAttempts = 4"

definition Router_do :: "('w, 'ctx, 'conn, 'creds, 'st, 'e) net \<Rightarrow> ('ctx, 'md) grpc_md \<Rightarrow> hash64 \<Rightarrow> 'ctx \<Rightarrow> string
    \<Rightarrow> ('ctx, 'conn, 'a, 'w, 'e) call \<Rightarrow> bool \<Rightarrow> ('conn, 'creds) router \<Rightarrow> 'a \<Rightarrow> 'w
    \<Rightarrow> 'e option \<times> ('conn, 'creds) router \<times> 'a \<times> 'w" where
  "Router_do N G xx ctx namespace fn retryAmbiguous r a w =
     attempts maxAttempts N G xx ctx namespace fn retryAmbiguous None r a w"

definition Do :: "('w, 'ctx, 'conn, 'creds, 'st, 'e) net \<Rightarrow> ('ctx, 'md) grpc_md \<Rightarrow> hash64 \<Rightarrow> 'ctx \<Rightarrow> string
    \<Rightarrow> ('ctx, 'conn, 'a, 'w, 'e) call \<Rightarrow> ('conn, 'creds) router \<Rightarrow> 'a \<Rightarrow> 'w
    \<Rightarrow> 'e option \<times> ('conn, 'creds) router \<times> 'a \<times> 'w" where
  "Do N G xx ctx namespace fn r a w = Router_do N G xx ctx namespace fn True r a w"

definition DoNonIdempotent :: "('w, 'ctx, 'conn, 'creds, 'st, 'e) net \<Rightarrow> ('ctx, 'md) grpc_md \<Rightarrow> hash64 \<Rightarrow> 'ctx \<Rightarrow> string
    \<Rightarrow> ('ctx, 'conn, 'a, 'w, 'e) call \<Rightarrow> ('conn, 'creds) router \<Rightarrow> 'a \<Rightarrow> 'w
    \<Rightarrow> 'e option \<times> ('conn, 'creds) router \<times> 'a \<times> 'w" where
  "DoNonIdempotent N G xx ctx namespace fn r a w = Router_do N G xx ctx namespace fn False r a w"

subsection \<open>The pool\<close>

locale router_net =
  fixes N :: "('w, 'ctx, 'conn, 'creds, 'st, 'e) net"
    and target :: "'conn \<Rightarrow> string"   \<comment> \<open>the address a connection was dialled to\<close>
  assumes range_owners: "finite (dom m) \<Longrightarrow> set (nt_range_owners N m w) = {(k, v). m k = Some v}"
    and range_conns: "finite (dom q) \<Longrightarrow> set (nt_range_conns N q w) = {(k, v). q k = Some v}"
    and dialled: "nt_NewClient N addr creds w = (Inr c, w') \<Longrightarrow> target c = addr"

definition pool_ok :: "('conn \<Rightarrow> string) \<Rightarrow> ('conn, 'creds) router \<Rightarrow> bool" where
  "pool_ok target r \<longleftrightarrow> finite (dom (r_conns r)) \<and> finite (dom (r_shardOwner r))
     \<and> (\<forall>addr c. r_conns r addr = Some c \<longrightarrow> target c = addr)"

text \<open>What only dialling may change.\<close>

definition same_routes :: "('conn, 'creds) router \<Rightarrow> ('conn, 'creds) router \<Rightarrow> bool" where
  "same_routes r r' \<longleftrightarrow> r_bootstrap r' = r_bootstrap r \<and> r_creds r' = r_creds r
     \<and> r_shardOwner r' = r_shardOwner r \<and> r_shardTerm r' = r_shardTerm r \<and> r_conns r \<subseteq>\<^sub>m r_conns r'"

lemma same_routes_refl [simp]: "same_routes r r"
  by (simp add: same_routes_def)

lemma same_routes_trans: "same_routes r r1 \<Longrightarrow> same_routes r1 r2 \<Longrightarrow> same_routes r r2"
  using map_le_trans by (fastforce simp: same_routes_def)

lemma evict_loop_conns:
  "fst (evict_loop N live ps conns w) = (\<lambda>a. if a \<notin> live \<and> a \<in> fst ` set ps then None else conns a)"
proof (induction ps arbitrary: conns w)
  case Nil
  show ?case by simp
next
  case (Cons p ps)
  obtain addr c where p: "p = (addr, c)" by force
  show ?case by (cases "addr \<in> live") (auto simp: p Cons.IH)
qed

text \<open>The router holds the route map of a node that answered, and no connection beyond its owners
  and the bootstrap nodes.\<close>

definition adopts :: "('w, 'ctx, 'conn, 'creds, 'st, 'e) net \<Rightarrow> ('conn \<Rightarrow> string) \<Rightarrow> 'ctx \<Rightarrow> string set
    \<Rightarrow> ('conn, 'creds) router \<Rightarrow> bool" where
  "adopts N target ctx addrs r \<longleftrightarrow> (\<exists>c resp w1 w2. target c \<in> addrs \<and> nt_GetRouteMap N ctx c w1 = (Inr resp, w2)
     \<and> nt_merr_Error N (rr_Status resp) = None
     \<and> r_shardOwner r = map_copy (rr_ShardOwner resp) Map.empty
     \<and> r_shardTerm r = map_copy (rr_ShardTerm resp) Map.empty)
     \<and> dom (r_conns r) \<subseteq> ran (r_shardOwner r) \<union> set (r_bootstrap r)"

context router_net
begin

lemma conn_facts:
  assumes "pool_ok target r" "Router_conn N r addr w = (res, r', w')"
  shows "pool_ok target r' \<and> same_routes r r' \<and> (\<forall>c. res = Inr c \<longrightarrow> target c = addr \<and> r_conns r' addr = Some c)
    \<and> (isl res \<longrightarrow> r' = r)"
proof (cases "r_conns r addr")
  case (Some c)
  then show ?thesis using assms by (auto simp: Router_conn_def pool_ok_def)
next
  case None
  obtain res0 w0 where d: "nt_NewClient N addr (r_creds r) w = (res0, w0)" by force
  show ?thesis
  proof (cases res0)
    case (Inl e)
    then show ?thesis using assms None d by (auto simp: Router_conn_def)
  next
    case (Inr c)
    have "target c = addr" using dialled d Inr by simp
    then show ?thesis using assms None d Inr
      by (auto simp: Router_conn_def pool_ok_def same_routes_def map_le_def split: if_splits)
  qed
qed

lemma evict_facts:
  assumes "pool_ok target r" "finite (dom owner)" "evictStaleConnsLocked N owner r w = (r', w')"
  shows "r' = r\<lparr>r_conns := (r_conns r) |` (ran owner \<union> set (r_bootstrap r))\<rparr>"
proof -
  have "live_addrs (nt_range_owners N owner w) (r_bootstrap r) = ran owner \<union> set (r_bootstrap r)"
    using range_owners [OF assms(2), of w] by (force simp: live_addrs_def ran_def)
  moreover have "fst ` set (nt_range_conns N (r_conns r) w) = dom (r_conns r)"
    using range_conns [of "r_conns r" w] assms(1) by (force simp: pool_ok_def dom_def)
  ultimately have "fst (evict_loop N (live_addrs (nt_range_owners N owner w) (r_bootstrap r))
      (nt_range_conns N (r_conns r) w) (r_conns r) w) = (r_conns r) |` (ran owner \<union> set (r_bootstrap r))"
    by (auto simp: evict_loop_conns fun_eq_iff restrict_map_def)
  then show ?thesis using assms(3) by (auto simp: evictStaleConnsLocked_def split: prod.splits)
qed

text \<open>A refresh adopts the route map of one node that answered, or keeps the routes it has.\<close>

lemma refresh_loop_facts:
  assumes "pool_ok target r" "refresh_loop N ctx addrs lastErr r w = (err, r', w')"
  shows "pool_ok target r' \<and> r_bootstrap r' = r_bootstrap r \<and> r_creds r' = r_creds r
    \<and> (err \<noteq> None \<longrightarrow> same_routes r r') \<and> (err = None \<longrightarrow> adopts N target ctx (set addrs) r')"
  using assms
proof (induction addrs arbitrary: lastErr r w)
  case Nil
  then show ?case by (auto split: option.splits)
next
  case (Cons addr addrs)
  obtain res r1 w1 where cn: "Router_conn N r addr w = (res, r1, w1)" by (metis prod_cases3)
  note f = conn_facts [OF Cons.prems(1) cn]
  show ?case
  proof (cases "\<exists>c resp w2. res = Inr c \<and> nt_GetRouteMap N ctx c w1 = (Inr resp, w2) \<and> nt_merr_Error N (rr_Status resp) = None")
    case False
    then have "\<exists>e w2. refresh_loop N ctx addrs (Some e) r1 w2 = (err, r', w')"
      using Cons.prems(2) cn by (auto split: sum.splits prod.splits option.splits)
    then obtain e w2 where "refresh_loop N ctx addrs (Some e) r1 w2 = (err, r', w')" by blast
    note ih = Cons.IH [OF f [THEN conjunct1] this]
    have "same_routes r1 r' \<Longrightarrow> same_routes r r'" using f same_routes_trans by blast
    moreover have "adopts N target ctx (set addrs) r' \<Longrightarrow> adopts N target ctx (set (addr # addrs)) r'"
      by (auto simp: adopts_def)
    moreover have "r_bootstrap r1 = r_bootstrap r" "r_creds r1 = r_creds r" using f by (simp_all add: same_routes_def)
    ultimately show ?thesis using ih by auto
  next
    case True
    then obtain c resp w2 where g: "res = Inr c" "nt_GetRouteMap N ctx c w1 = (Inr resp, w2)"
      "nt_merr_Error N (rr_Status resp) = None" by blast
    let ?o = "map_copy (rr_ShardOwner resp) Map.empty" and ?t = "map_copy (rr_ShardTerm resp) Map.empty"
    have fin: "finite (dom ?o)" by (simp add: map_copy_dom)
    obtain r2 w3 where ev: "evictStaleConnsLocked N ?o (r1\<lparr>r_shardOwner := ?o, r_shardTerm := ?t\<rparr>) w2 = (r2, w3)" by force
    have res: "err = None" "r' = r2" using Cons.prems(2) cn g ev by (simp_all add: Let_def)
    have "pool_ok target (r1\<lparr>r_shardOwner := ?o, r_shardTerm := ?t\<rparr>)" using f fin by (simp add: pool_ok_def)
    note e = evict_facts [OF this fin ev]
    have "pool_ok target r2" using f fin unfolding e pool_ok_def
      by simp (auto simp: restrict_map_def split: if_splits)
    moreover have "adopts N target ctx (set (addr # addrs)) r2"
      unfolding adopts_def using f g by (auto simp: e intro!: exI [of _ c] exI [of _ resp])
    ultimately show ?thesis using res f by (simp add: e same_routes_def)
  qed
qed

lemma refresh_facts:
  assumes "pool_ok target r" "Refresh N ctx r w = (err, r', w')"
  shows "pool_ok target r' \<and> r_bootstrap r' = r_bootstrap r \<and> r_creds r' = r_creds r
    \<and> (err \<noteq> None \<longrightarrow> same_routes r r')
    \<and> (err = None \<longrightarrow> adopts N target ctx (set (r_bootstrap r) \<union> ran (r_shardOwner r)) r')"
proof -
  have "set (r_bootstrap r @ map snd (nt_range_owners N (r_shardOwner r) w)) = set (r_bootstrap r) \<union> ran (r_shardOwner r)"
  proof -
    have "snd ` set (nt_range_owners N (r_shardOwner r) w) = ran (r_shardOwner r)"
      unfolding range_owners [OF conjunct1 [OF conjunct2 [OF assms(1) [unfolded pool_ok_def]]]]
      by (auto simp: ran_def image_iff)
    then show ?thesis by simp
  qed
  then show ?thesis using refresh_loop_facts [OF assms(1) assms(2) [unfolded Refresh_def]] by simp
qed

end

subsection \<open>One pass of the retry loop\<close>

text \<open>What the loop makes of the error of a call.\<close>

definition resendable :: "('w, 'ctx, 'conn, 'creds, 'st, 'e) net \<Rightarrow> bool \<Rightarrow> 'e \<Rightarrow> bool" where
  "resendable N ra err \<longleftrightarrow> isRetriableRejection N err \<or> (ra \<and> isAmbiguousTransport N err)"

definition verdict :: "('w, 'ctx, 'conn, 'creds, 'st, 'e) net \<Rightarrow> bool \<Rightarrow> 'e option \<Rightarrow> 'e pass" where
  "verdict N ra e = (case e of None \<Rightarrow> Return None
     | Some x \<Rightarrow> if resendable N ra x then Continue x else Return (Some x))"

lemma verdict_simps:
  "verdict N ra e = Return res \<longleftrightarrow> res = e \<and> (\<forall>x. e = Some x \<longrightarrow> \<not> resendable N ra x)"
  "verdict N ra e = Continue x \<longleftrightarrow> e = Some x \<and> resendable N ra x"
  by (cases e; auto simp: verdict_def)+

lemma send_cases:
  assumes "send N G ctx ns fn ra owner t r a w = (p, r', a', w')"
  shows "(a' = a \<and> (\<exists>err. p = Continue err))
    \<or> (\<exists>c r1 w1 w2 e. Router_conn N r owner w = (Inr c, r1, w1) \<and> fn (WithTerm G ctx ns t) c a w1 = (e, a', w2)
         \<and> p = verdict N ra e)"
proof -
  obtain res r1 w1 where cn: "Router_conn N r owner w = (res, r1, w1)" by (metis prod_cases3)
  show ?thesis
  proof (cases res)
    case (Inl err)
    then show ?thesis using assms cn by (auto simp: send_def split: prod.splits)
  next
    case (Inr c)
    obtain e a1 w2 where fn: "fn (WithTerm G ctx ns t) c a w1 = (e, a1, w2)" by (metis prod_cases3)
    have "a' = a1 \<and> p = verdict N ra e"
      using assms cn Inr fn
      by (auto simp: send_def verdict_def resendable_def split: option.splits if_splits prod.splits)
    then show ?thesis using cn Inr fn by blast
  qed
qed

lemma attempt_cases:
  assumes "attempt N G xx ctx ns fn ra r a w = (p, r', a', w')"
  shows "(a' = a \<and> p \<noteq> Return None)
    \<or> (\<exists>r0 w0 owner t c r1 w1 w2 e. (r0 = r \<and> w0 = w \<or> Refresh N ctx r w = (None, r0, w0))
         \<and> routeFor xx r0 ns = (owner, t) \<and> owner \<noteq> [] \<and> Router_conn N r0 owner w0 = (Inr c, r1, w1)
         \<and> fn (WithTerm G ctx ns t) c a w1 = (e, a', w2) \<and> p = verdict N ra e)"
proof -
  obtain owner t where o: "routeFor xx r ns = (owner, t)" by force
  consider (cancelled) err where "nt_ctx_Err N ctx w = Some err"
    | (known) "nt_ctx_Err N ctx w = None" "owner \<noteq> []"
    | (failed) err r1 w1 where "nt_ctx_Err N ctx w = None" "owner = []" "Refresh N ctx r w = (Some err, r1, w1)"
    | (fetched) r1 w1 where "nt_ctx_Err N ctx w = None" "owner = []" "Refresh N ctx r w = (None, r1, w1)"
    by (metis option.exhaust prod_cases3)
  then show ?thesis
  proof cases
    case cancelled
    then show ?thesis using assms by (auto simp: attempt_def)
  next
    case known
    then have "send N G ctx ns fn ra owner t r a w = (p, r', a', w')" using assms o by (simp add: attempt_def)
    from send_cases [OF this] show ?thesis using o known by blast
  next
    case failed
    then show ?thesis using assms o by (auto simp: attempt_def)
  next
    case fetched
    obtain owner1 t1 where o1: "routeFor xx r1 ns = (owner1, t1)" by force
    show ?thesis
    proof (cases "owner1 = []")
      case True
      then show ?thesis using assms o o1 fetched by (auto simp: attempt_def)
    next
      case False
      then have "send N G ctx ns fn ra owner1 t1 r1 a w1 = (p, r', a', w')"
        using assms o o1 fetched by (simp add: attempt_def)
      from send_cases [OF this] show ?thesis using o1 False fetched(3) by blast
    qed
  qed
qed

lemma attempt_success:
  assumes "attempt N G xx ctx ns fn ra r a w = (Return None, r', a', w')"
  shows "\<exists>t c w1. fn (WithTerm G ctx ns t) c a w1 = (None, a', w')"
proof -
  have "\<exists>c w1. fn (WithTerm G ctx ns t) c a w1 = (None, a', w')"
    if "send N G ctx ns fn ra owner t r0 a w0 = (Return None, r', a', w')" for owner t r0 w0
    using that by (auto simp: send_def split: sum.splits option.splits if_splits prod.splits)
  moreover have "\<exists>owner t r0 w0. send N G ctx ns fn ra owner t r0 a w0 = (Return None, r', a', w')"
    using assms unfolding attempt_def by (auto split: option.splits if_splits prod.splits; blast)
  ultimately show ?thesis by metis
qed

lemma attempts_success:
  assumes "attempts k N G xx ctx ns fn ra lastErr r a w = (None, r', a', w')" "lastErr \<noteq> None \<or> 0 < k"
  shows "\<exists>t c a0 w1. fn (WithTerm G ctx ns t) c a0 w1 = (None, a', w')"
  using assms
proof (induction k arbitrary: lastErr r a w)
  case 0
  then show ?case by simp
next
  case (Suc k)
  obtain p r1 a1 w1 where at: "attempt N G xx ctx ns fn ra r a w = (p, r1, a1, w1)" by (metis prod_cases4)
  show ?case
  proof (cases p)
    case (Return res)
    then have "attempt N G xx ctx ns fn ra r a w = (Return None, r', a', w')" using Suc.prems(1) at by simp
    from attempt_success [OF this] show ?thesis by auto
  next
    case (Continue e)
    then have "attempts k N G xx ctx ns fn ra (Some e) r1 a1 w1 = (None, r', a', w')" using Suc.prems(1) at by simp
    then show ?thesis by (rule Suc.IH) simp
  qed
qed

context router_net
begin

lemma send_pool:
  assumes "pool_ok target r" "send N G ctx ns fn ra owner t r a w = (p, r', a', w')"
  shows "pool_ok target r'"
proof -
  obtain res r1 w1 where cn: "Router_conn N r owner w = (res, r1, w1)" by (metis prod_cases3)
  note f = conn_facts [OF assms(1) cn]
  have "pool_ok target (fst (snd (Refresh N ctx r1 u)))" for u
    using refresh_facts [OF f [THEN conjunct1], of ctx u] by (metis prod.collapse)
  then have "pool_ok target r2" if "Refresh N ctx r1 u = (e, r2, w2)" for u e r2 w2
    using that by (metis fst_conv snd_conv)
  then show ?thesis
    using assms(2) cn f by (auto simp: send_def split: sum.splits option.splits if_splits prod.splits)
qed

lemma attempt_pool:
  assumes "pool_ok target r" "attempt N G xx ctx ns fn ra r a w = (p, r', a', w')"
  shows "pool_ok target r'"
proof -
  have "pool_ok target r2" if "Refresh N ctx r w = (e, r2, w2)" for e r2 w2
    using refresh_facts [OF assms(1) that] by simp
  then show ?thesis
    using assms send_pool
    by (auto simp: attempt_def split: option.splits prod.splits if_splits)
qed

lemma attempts_pool:
  assumes "pool_ok target r" "attempts k N G xx ctx ns fn ra lastErr r a w = (err, r', a', w')"
  shows "pool_ok target r'"
  using assms
proof (induction k arbitrary: lastErr r a w)
  case 0
  then show ?case by simp
next
  case (Suc k)
  obtain p r1 a1 w1 where at: "attempt N G xx ctx ns fn ra r a w = (p, r1, a1, w1)" by (metis prod_cases4)
  have "pool_ok target r1" by (rule attempt_pool [OF Suc.prems(1) at])
  then show ?case using Suc.IH Suc.prems(2) at by (cases p) auto
qed

end

subsection \<open>The calls of a whole run\<close>

text \<open>A closure that also records the error of each of its calls. Recording does not change the run.\<close>

definition logged :: "('ctx, 'conn, 'a, 'w, 'e) call \<Rightarrow> ('ctx, 'conn, 'a \<times> 'e option list, 'w, 'e) call" where
  "logged fn ctx c al w = (case fn ctx c (fst al) w of (e, a1, w1) \<Rightarrow> (e, (a1, snd al @ [e]), w1))"

lemma logged_entry: "logged fn ctx c (a, log) w = (e, (a', log'), w') \<Longrightarrow> log' = log @ [e] \<and> fn ctx c a w = (e, a', w')"
  by (auto simp: logged_def split: prod.splits)

lemma send_logged:
  "send N G ctx ns (logged fn) ra owner t r (a, log) w = (p, r', al, w')
   \<Longrightarrow> send N G ctx ns fn ra owner t r a w = (p, r', fst al, w')"
  by (auto simp: send_def logged_def split: sum.splits option.splits prod.splits if_splits)

lemma attempt_logged:
  "attempt N G xx ctx ns (logged fn) ra r (a, log) w = (p, r', al, w')
   \<Longrightarrow> attempt N G xx ctx ns fn ra r a w = (p, r', fst al, w')"
  by (auto simp: attempt_def dest: send_logged split: option.splits prod.splits if_splits)

lemma attempts_logged:
  "attempts k N G xx ctx ns (logged fn) ra lastErr r (a, log) w = (err, r', (a', log'), w')
   \<Longrightarrow> attempts k N G xx ctx ns fn ra lastErr r a w = (err, r', a', w')"
proof (induction k arbitrary: lastErr r a log w)
  case 0
  then show ?case by simp
next
  case (Suc k)
  obtain p r1 a1 l1 w1 where at: "attempt N G xx ctx ns (logged fn) ra r (a, log) w = (p, r1, (a1, l1), w1)"
    by (metis prod_cases4 surj_pair)
  have "attempt N G xx ctx ns fn ra r a w = (p, r1, a1, w1)" using attempt_logged [OF at] by simp
  then show ?case using Suc.IH Suc.prems at by (cases p) auto
qed

text \<open>One pass adds at most one entry to the record, and the entry decides how the pass ends.\<close>

lemma attempt_record:
  assumes "attempt N G xx ctx ns (logged fn) ra r (a, log) w = (p, r', (a', log'), w')"
  shows "(log' = log \<and> p \<noteq> Return None) \<or> (\<exists>e. log' = log @ [e] \<and> p = verdict N ra e)"
proof -
  consider (idle) "(a', log') = (a, log)" "p \<noteq> Return None"
    | (called) t c w1 w2 e where "logged fn (WithTerm G ctx ns t) c (a, log) w1 = (e, (a', log'), w2)" "p = verdict N ra e"
    using attempt_cases [OF assms] by blast
  then show ?thesis
  proof cases
    case idle
    then show ?thesis by simp
  next
    case called
    then show ?thesis using logged_entry [OF called(1)] by auto
  qed
qed

text \<open>The record of a run: every call but the last was answered with an error that may be re-sent,
  and the run returns nil exactly when the last call did.\<close>

definition record_ok :: "('w, 'ctx, 'conn, 'creds, 'st, 'e) net \<Rightarrow> bool \<Rightarrow> 'e option \<Rightarrow> 'e option list \<Rightarrow> bool" where
  "record_ok N ra err log \<longleftrightarrow> (\<forall>e \<in> set (butlast log). \<exists>x. e = Some x \<and> resendable N ra x)
     \<and> (err = None \<longleftrightarrow> log \<noteq> [] \<and> last log = None)"

lemma record_ok_Cons: "record_ok N ra err log \<Longrightarrow> resendable N ra x \<Longrightarrow> record_ok N ra err (Some x # log)"
  by (cases log) (auto simp: record_ok_def)

lemma attempts_record:
  assumes "attempts k N G xx ctx ns (logged fn) ra lastErr r (a, log) w = (err, r', (a', log'), w')"
    and "lastErr \<noteq> None \<or> 0 < k"
  shows "\<exists>new. log' = log @ new \<and> length new \<le> k \<and> record_ok N ra err new"
  using assms
proof (induction k arbitrary: lastErr r a log w)
  case 0
  then show ?case by (simp add: record_ok_def)
next
  case (Suc k)
  obtain p r1 a1 l1 w1 where at: "attempt N G xx ctx ns (logged fn) ra r (a, log) w = (p, r1, (a1, l1), w1)"
    by (metis prod_cases4 surj_pair)
  note rec = attempt_record [OF at]
  show ?case
  proof (cases p)
    case (Return res)
    then have "err = res" "log' = l1" using Suc.prems(1) at by simp_all
    moreover have "l1 = log @ [] \<and> res \<noteq> None \<or> (\<exists>e. l1 = log @ [e] \<and> res = e)"
      using rec Return verdict_simps(1) [of N ra] by (metis append_Nil2)
    ultimately have "(log' = log @ [] \<and> record_ok N ra err []) \<or> (log' = log @ [err] \<and> record_ok N ra err [err])"
      by (auto simp: record_ok_def)
    then show ?thesis by (metis One_nat_def Suc_le_mono le0 length_Cons list.size(3))
  next
    case (Continue x)
    then have "attempts k N G xx ctx ns (logged fn) ra (Some x) r1 (a1, l1) w1 = (err, r', (a', log'), w')"
      using Suc.prems(1) at by simp
    then obtain new where new: "log' = l1 @ new" "length new \<le> k" "record_ok N ra err new"
      using Suc.IH by blast
    have "l1 = log \<or> (l1 = log @ [Some x] \<and> resendable N ra x)"
      using rec Continue verdict_simps(2) [of N ra] by metis
    then show ?thesis
    proof (elim disjE conjE)
      assume "l1 = log"
      then show ?thesis using new by (intro exI [of _ new]) simp
    next
      assume "l1 = log @ [Some x]" "resendable N ra x"
      then show ?thesis using new record_ok_Cons by (intro exI [of _ "Some x # new"]) simp
    qed
  qed
qed

lemma attempts_once:
  assumes "attempts 4 N G xx ctx ns (logged fn) False None r (a, []) w = (err, r', (a', log), w')"
  shows "length (filter (\<lambda>e. \<not> (\<exists>x. e = Some x \<and> isRetriableRejection N x)) log) \<le> 1"
proof -
  have "\<forall>e \<in> set (butlast log). \<exists>x. e = Some x \<and> isRetriableRejection N x"
    using attempts_record [OF assms] by (auto simp: record_ok_def resendable_def)
  then have none: "filter (\<lambda>e. \<not> (\<exists>x. e = Some x \<and> isRetriableRejection N x)) (butlast log) = []"
    by (simp add: filter_empty_conv)
  have "length (filter P log) \<le> length (filter P (butlast log)) + 1" for P
    by (cases log rule: rev_cases) auto
  from this [of "\<lambda>e. \<not> (\<exists>x. e = Some x \<and> isRetriableRejection N x)"] show ?thesis using none by simp
qed

subsection \<open>A network to run on\<close>

text \<open>Connections are addresses; the world counts what happened. Node \<open>n1\<close> answers with a route
  map that gives every namespace's shard in \<open>owners\<close>; other nodes do not answer.\<close>

datatype demo_err = NotOwner | Unreachable | Cancelled | ServiceUnavailable string

definition map_entries :: "('k::linorder \<rightharpoonup> 'v) \<Rightarrow> ('k \<times> 'v) list" where
  "map_entries m = map (\<lambda>k. (k, the (m k))) (sorted_list_of_set (dom m))"

lemma map_entries_set: "finite (dom m) \<Longrightarrow> set (map_entries m) = {(k, v). m k = Some v}"
  by (force simp: map_entries_def)

definition demo_net :: "(int \<times> string) list \<Rightarrow> nat \<Rightarrow> (nat, ref_ctx, string, unit, demo_err option, demo_err) net" where
  "demo_net owners deadline = \<lparr>
     nt_NewClient = (\<lambda>addr _ w. (Inr addr, w)),
     nt_Close = (\<lambda>_ w. w),
     nt_GetRouteMap = (\<lambda>_ c w. if c = ''n1''
        then (Inr \<lparr>rr_Status = None, rr_ShardOwner = owners, rr_ShardTerm = map (\<lambda>(s, _). (s, 7)) owners\<rparr>, Suc w)
        else (Inl Unreachable, Suc w)),
     nt_ctx_Err = (\<lambda>_ w. if w \<ge> deadline then Some Cancelled else None),
     nt_merr_Error = (\<lambda>st. st),
     nt_IsRetryableErr = (\<lambda>e. e = NotOwner),
     nt_status_Code = (\<lambda>e. if e = Unreachable then Unavailable else OtherCode 2),
     nt_WrapErrServiceUnavailable = ServiceUnavailable,
     nt_range_owners = (\<lambda>m _. map_entries m),
     nt_range_conns = (\<lambda>m _. map_entries m)\<rparr>"

interpretation demo: router_net "demo_net owners deadline" "\<lambda>c. c" for owners deadline
  by unfold_locales (auto simp: demo_net_def map_entries_set)

lemma maxAttempts_Suc: "maxAttempts = Suc (Suc (Suc (Suc 0)))"
  by (simp add: maxAttempts_def)

lemma NewRouter_pool [simp]: "pool_ok target (NewRouter creds bootstrap)"
  by (simp add: pool_ok_def NewRouter_def)

text \<open>A call that succeeds at \<open>n2\<close> only, and counts its calls.\<close>

definition demo_call :: "(ref_ctx, string, nat, nat, demo_err) call" where
  "demo_call ctx c a w = ((if c = ''n2'' then None else Some NotOwner), Suc a, Suc w)"

definition stale_router :: "(string, unit) router" where
  "stale_router = (NewRouter () [''n1''])\<lparr>r_shardOwner := [ShardOf fnv64 ''ns'' \<mapsto> ''n3'']\<rparr>"

lemma stale_router_pool [simp]: "pool_ok target stale_router"
  by (simp add: pool_ok_def stale_router_def NewRouter_def)

lemmas demo_run = Router_do_def maxAttempts_Suc attempt_def routeFor_def stale_router_def NewRouter_def
  send_def Router_conn_def demo_net_def logged_def demo_call_def isRetriableRejection_def isAmbiguousTransport_def
  Refresh_def evictStaleConnsLocked_def live_addrs_def map_entries_def Let_def

subsection \<open>Properties of the router\<close>

text \<open>C9: bounded, justified re-sending. A run calls \<open>fn\<close> at most four times; it calls it again
  only after a rejection that marks the call as not applied or, for idempotent calls, after an
  ambiguous transport failure; it returns nil exactly when its last call of \<open>fn\<close> returned nil.
  (The record of the calls is an instrumentation that does not change the run.)\<close>

theorem do_resends_justified:
  assumes "Router_do N G xx ctx ns (logged fn) ra r (a, []) w = (err, r', (a', log), w')"
  shows "length log \<le> 4
    \<and> (\<forall>e \<in> set (butlast log). \<exists>x. e = Some x \<and> (isRetriableRejection N x \<or> (ra \<and> isAmbiguousTransport N x)))
    \<and> (err = None \<longleftrightarrow> log \<noteq> [] \<and> last log = None)
    \<and> Router_do N G xx ctx ns fn ra r a w = (err, r', a', w')"
proof -
  have at: "attempts 4 N G xx ctx ns (logged fn) ra None r (a, []) w = (err, r', (a', log), w')"
    using assms by (simp add: Router_do_def maxAttempts_def)
  from attempts_record [OF at] attempts_logged [OF at] show ?thesis
    by (auto simp: record_ok_def resendable_def Router_do_def maxAttempts_def)
qed

theorem do_resends_justified_witness:
  "\<exists>err r' a' log w'. Router_do (demo_net [(ShardOf fnv64 ''ns'', ''n2'')] 100) ref_md fnv64 ref_ctx0 ''ns'' (logged demo_call) True
       stale_router (0, []) 0 = (err, r', (a', log), w')
     \<and> log = [Some NotOwner, None] \<and> err = None"
proof -
  let ?run = "Router_do (demo_net [(ShardOf fnv64 ''ns'', ''n2'')] 100) ref_md fnv64 ref_ctx0 ''ns'' (logged demo_call) True stale_router (0, []) 0"
  obtain err r' a' log w' where d: "?run = (err, r', (a', log), w')" by (metis prod_cases4 surj_pair)
  have "snd (fst (snd (snd ?run))) = [Some NotOwner, None]"
    by (simp add: demo_run)
  then have "log = [Some NotOwner, None]" using d by simp
  then show ?thesis using do_resends_justified [OF d] d by simp
qed



text \<open>C28: calls go to the owner with its own term. Whenever a pass of the loop calls \<open>fn\<close>, the
  connection is to the non-empty owner, and the stamped term is the term, of one and the same
  route map: the one the router held or the one it has just fetched.\<close>

theorem attempt_routes:
  assumes "router_net N target" and "pool_ok target r"
    and "attempt N G xx ctx ns fn ra r a w = (p, r', a', w')"
  shows "(a' = a \<and> p \<noteq> Return None)
    \<or> (\<exists>r0 w0 c t w1 w2 e. (r0 = r \<or> Refresh N ctx r w = (None, r0, w0)) \<and> routeFor xx r0 ns = (target c, t)
         \<and> target c \<noteq> [] \<and> fn (WithTerm G ctx ns t) c a w1 = (e, a', w2) \<and> p = verdict N ra e)"
proof -
  consider (idle) "a' = a" "p \<noteq> Return None"
    | (called) r0 w0 owner t c r1 w1 w2 e where "r0 = r \<and> w0 = w \<or> Refresh N ctx r w = (None, r0, w0)"
      "routeFor xx r0 ns = (owner, t)" "owner \<noteq> []" "Router_conn N r0 owner w0 = (Inr c, r1, w1)"
      "fn (WithTerm G ctx ns t) c a w1 = (e, a', w2)" "p = verdict N ra e"
    using attempt_cases [OF assms(3)] by blast
  then show ?thesis
  proof cases
    case called
    have "pool_ok target r0"
      using called(1) assms(2) router_net.refresh_facts [OF assms(1,2)] by blast
    then have "target c = owner" using router_net.conn_facts [OF assms(1) _ called(4)] by simp
    then show ?thesis using called by blast
  qed simp
qed

theorem attempt_routes_witness:
  "\<exists>p r' a' w'. attempt (demo_net [] 100) ref_md fnv64 ref_ctx0 ''ns'' demo_call True stale_router 0 0 = (p, r', a', w')
     \<and> a' = 1 \<and> (\<exists>r0 w0 c t w1 w2 e. (r0 = stale_router \<or> Refresh (demo_net [] 100) ref_ctx0 stale_router 0 = (None, r0, w0))
         \<and> routeFor fnv64 r0 ''ns'' = (c, t) \<and> c \<noteq> [] \<and> demo_call (WithTerm ref_md ref_ctx0 ''ns'' t) c 0 w1 = (e, a', w2))"
proof -
  let ?run = "attempt (demo_net [] 100) ref_md fnv64 ref_ctx0 ''ns'' demo_call True stale_router 0 0"
  obtain p r' a' w' where d: "?run = (p, r', a', w')" by (metis prod_cases4)
  have "fst (snd (snd ?run)) = 1" by (simp add: demo_run)
  then have "a' = 1" using d by simp
  then have "a' \<noteq> 0" by simp
  then have "\<exists>r0 w0 c t w1 w2 e. (r0 = stale_router \<or> Refresh (demo_net [] 100) ref_ctx0 stale_router 0 = (None, r0, w0))
         \<and> routeFor fnv64 r0 ''ns'' = (c, t) \<and> c \<noteq> [] \<and> demo_call (WithTerm ref_md ref_ctx0 ''ns'' t) c 0 w1 = (e, a', w2)"
    using attempt_routes [OF demo.router_net_axioms stale_router_pool d] by blast
  then show ?thesis using d \<open>a' = 1\<close> by blast
qed

text \<open>C0: a cancelled or expired context ends the run at once: no call, no refresh.\<close>

theorem do_cancelled:
  assumes "nt_ctx_Err N ctx w = Some err"
  shows "Router_do N G xx ctx ns fn ra r a w = (Some err, r, a, w)"
  using assms by (simp add: Router_do_def maxAttempts_Suc attempt_def)

theorem do_cancelled_witness:
  "Router_do (demo_net [] 0) ref_md fnv64 ref_ctx0 ''ns'' demo_call True stale_router 0 5 = (Some Cancelled, stale_router, 0, 5)"
  by (rule do_cancelled) (simp add: demo_net_def)

text \<open>C27: a refresh adopts a whole route map or nothing. On success the routes are exactly the
  entries of one node's answer and the pool is trimmed to the owners in it and the bootstrap
  nodes; on failure the routes stay and no pooled connection is lost. Pooled connections always
  lead to the address they are filed under.\<close>

theorem Refresh_outcome:
  assumes "router_net N target" and "pool_ok target r" and "Refresh N ctx r w = (err, r', w')"
  shows "pool_ok target r' \<and> r_bootstrap r' = r_bootstrap r \<and> r_creds r' = r_creds r
    \<and> (err \<noteq> None \<longrightarrow> r_shardOwner r' = r_shardOwner r \<and> r_shardTerm r' = r_shardTerm r \<and> r_conns r \<subseteq>\<^sub>m r_conns r')
    \<and> (err = None \<longrightarrow> (\<exists>c resp w1 w2. target c \<in> set (r_bootstrap r) \<union> ran (r_shardOwner r)
          \<and> nt_GetRouteMap N ctx c w1 = (Inr resp, w2) \<and> nt_merr_Error N (rr_Status resp) = None
          \<and> r_shardOwner r' = map_copy (rr_ShardOwner resp) Map.empty
          \<and> r_shardTerm r' = map_copy (rr_ShardTerm resp) Map.empty)
        \<and> dom (r_conns r') \<subseteq> ran (r_shardOwner r') \<union> set (r_bootstrap r'))"
  using router_net.refresh_facts [OF assms] by (auto simp: adopts_def same_routes_def)

theorem Refresh_outcome_witness:
  "\<exists>r' w'. Refresh (demo_net [(3, ''n2'')] 100) ref_ctx0 stale_router 0 = (None, r', w')
     \<and> dom (r_conns r') \<subseteq> ran (r_shardOwner r') \<union> set (r_bootstrap r')"
proof -
  have "fst (Refresh (demo_net [(3, ''n2'')] 100) ref_ctx0 stale_router 0) = None" by (simp add: demo_run)
  then obtain r' w' where f: "Refresh (demo_net [(3, ''n2'')] 100) ref_ctx0 stale_router 0 = (None, r', w')"
    by (metis prod.collapse)
  from Refresh_outcome [OF demo.router_net_axioms _ f] f show ?thesis by auto
qed

lemma refresh_loop_reaches:
  assumes net: "router_net N target" and ok: "pool_ok target r" and addr: "addr \<in> set addrs"
    and dial: "\<forall>creds w. \<not> isl (fst (nt_NewClient N addr creds w))"
    and answer: "\<forall>c w. target c = addr \<longrightarrow> (\<exists>resp. fst (nt_GetRouteMap N ctx c w) = Inr resp \<and> nt_merr_Error N (rr_Status resp) = None)"
  shows "fst (refresh_loop N ctx addrs lastErr r w) = None"
  using ok addr
proof (induction addrs arbitrary: lastErr r w)
  case Nil
  then show ?case by simp
next
  case (Cons x addrs)
  obtain res r1 w1 where cn: "Router_conn N r x w = (res, r1, w1)" by (metis prod_cases3)
  note f = router_net.conn_facts [OF net Cons.prems(1) cn]
  show ?case
  proof (cases "x = addr")
    case True
    have "\<not> isl res" using cn dial [rule_format, of "r_creds r" w] True
      by (auto simp: Router_conn_def split: option.splits sum.splits prod.splits)
    then obtain c where c: "res = Inr c" by (metis sum.collapse(2))
    then obtain resp w2 where "nt_GetRouteMap N ctx c w1 = (Inr resp, w2)" "nt_merr_Error N (rr_Status resp) = None"
      using answer [rule_format, of c w1] f True by (metis prod.collapse)
    then show ?thesis using cn c by (simp add: Let_def split: prod.split)
  next
    case False
    then have ih: "fst (refresh_loop N ctx addrs (Some e) r1 u) = None" for e u
      using Cons.IH [OF f [THEN conjunct1]] Cons.prems(2) by simp
    show ?thesis using cn ih by (auto simp: Let_def split: sum.split prod.split option.split)
  qed
qed

text \<open>C0: one reachable bootstrap node is enough. If some bootstrap node can always be dialled and
  answers with a good status, the refresh succeeds, whatever the other nodes do.\<close>

theorem Refresh_succeeds:
  assumes "router_net N target" and "pool_ok target r" and "addr \<in> set (r_bootstrap r)"
    and "\<forall>creds w. \<not> isl (fst (nt_NewClient N addr creds w))"
    and "\<forall>c w. target c = addr \<longrightarrow> (\<exists>resp. fst (nt_GetRouteMap N ctx c w) = Inr resp \<and> nt_merr_Error N (rr_Status resp) = None)"
  shows "fst (Refresh N ctx r w) = None"
  unfolding Refresh_def by (rule refresh_loop_reaches [OF assms(1,2) _ assms(4,5)]) (use assms(3) in simp)

theorem Refresh_succeeds_witness:
  "fst (Refresh (demo_net [(3, ''n2'')] 100) ref_ctx0 (NewRouter () [''n0'', ''n1'']) 0) = None"
  by (rule Refresh_succeeds [OF demo.router_net_axioms NewRouter_pool, of "''n1''"])
     (auto simp: NewRouter_def demo_net_def)

text \<open>C13: failover is transparent. When the owner the router knows answers with an error that may
  be re-sent, and after the refresh the router can dial the owner it then knows and the call
  succeeds there, the caller sees nil and the effect of the second call, whether or not the
  refresh itself succeeded.\<close>

theorem do_redirects:
  assumes "nt_ctx_Err N ctx w = None" and "routeFor xx r ns = (o1, t1)" and "o1 \<noteq> []"
    and "Router_conn N r o1 w = (Inr c1, r1, w1)" and "fn (WithTerm G ctx ns t1) c1 a w1 = (Some err, a1, w2)"
    and "isRetriableRejection N err \<or> (ra \<and> isAmbiguousTransport N err)"
    and "Refresh N ctx r1 w2 = (ferr, r2, w3)" and "nt_ctx_Err N ctx w3 = None"
    and "routeFor xx r2 ns = (o2, t2)" and "o2 \<noteq> []" and "Router_conn N r2 o2 w3 = (Inr c2, r3, w4)"
    and "fn (WithTerm G ctx ns t2) c2 a1 w4 = (None, a2, w5)"
  shows "Router_do N G xx ctx ns fn ra r a w = (None, r3, a2, w5)"
  using assms by (simp add: Router_do_def maxAttempts_Suc attempt_def send_def)

theorem do_redirects_witness:
  "\<exists>r3. Router_do (demo_net [(ShardOf fnv64 ''ns'', ''n2'')] 100) ref_md fnv64 ref_ctx0 ''ns'' demo_call False stale_router 0 0
     = (None, r3, 2, 3)"
proof -
  let ?N = "demo_net [(ShardOf fnv64 ''ns'', ''n2'')] 100"
  let ?r1 = "stale_router\<lparr>r_conns := [''n3'' \<mapsto> ''n3'']\<rparr>"
  obtain r2 where r2: "Refresh ?N ref_ctx0 ?r1 1 = (None, r2, 2)" "routeFor fnv64 r2 ''ns'' = (''n2'', 7)" "r_conns r2 ''n2'' = None"
    by (simp add: demo_run)
  have "Router_do ?N ref_md fnv64 ref_ctx0 ''ns'' demo_call False stale_router 0 0 = (None, r2\<lparr>r_conns := (r_conns r2)(''n2'' \<mapsto> ''n2'')\<rparr>, 2, 3)"
    by (rule do_redirects [where err = NotOwner and ?a1.0 = 1 and ?c1.0 = "''n3''" and ?c2.0 = "''n2''" and ?w1.0 = 0 and ?w4.0 = 2, OF _ _ _ _ _ _ r2(1) _ r2(2)])
       (use r2(3) in \<open>simp_all add: demo_net_def stale_router_def NewRouter_def routeFor_def Let_def Router_conn_def
          demo_call_def isRetriableRejection_def\<close>)
  then show ?thesis by blast
qed

end
