(* ===== verification/RoutingClient.thy ===== *)
theory RoutingClient
  imports Router
begin

section \<open>The namespace-bound client (client/routing_client.go)\<close>

text \<open>
  The 84 methods of the catalog client, each a definition of its own: it runs the generated
  client's call of the same name through the router's retry loop and hands back the response that
  the closure captured last, with the loop's error. The generated client is not part of this
  repository: \<open>stub\<close> is the parameter that stands for it, a call per method name together with
  the nil-safe \<open>GetStatus\<close> of a response. \<open>None\<close> is a nil response.
\<close>

record ('w, 'ctx, 'conn, 'st, 'e, 'req, 'resp, 'opts) stub =
  st_call :: "string \<Rightarrow> 'ctx \<Rightarrow> 'conn \<Rightarrow> 'req \<Rightarrow> 'opts \<Rightarrow> 'w \<Rightarrow> ('resp option \<times> 'e option) \<times> 'w"
  st_GetStatus :: "'resp option \<Rightarrow> 'st"

definition callErr :: "('w, 'ctx, 'conn, 'creds, 'st, 'e) net \<Rightarrow> 'e option \<Rightarrow> 'st \<Rightarrow> 'e option" where
  "callErr N transport st = (if transport \<noteq> None then transport else nt_merr_Error N st)"

record ('conn, 'creds) routingClient =
  rc_router :: "('conn, 'creds) router"
  rc_namespace :: string

definition NewRoutingClient :: "('conn, 'creds) router \<Rightarrow> string \<Rightarrow> ('conn, 'creds) routingClient" where
  "NewRoutingClient router namespace = \<lparr>rc_router = router, rc_namespace = namespace\<rparr>"

subsection \<open>The methods\<close>

text \<open>The closure every method passes to the router, over the captured variable \<open>out\<close>.\<close>

definition closure :: "('w, 'ctx, 'conn, 'st, 'e, 'req, 'resp, 'opts) stub \<Rightarrow> ('w, 'ctx, 'conn, 'creds, 'st, 'e) net
    \<Rightarrow> string \<Rightarrow> 'req \<Rightarrow> 'opts \<Rightarrow> ('ctx, 'conn, 'resp option, 'w, 'e) call" where
  "closure S N name req opts = (\<lambda>c cli out w.
     (case st_call S name c cli req opts w of
        ((out1, e), w1) \<Rightarrow> (callErr N e (st_GetStatus S out1), out1, w1)))"

text \<open>\<open>return out, err\<close>, with the router's new state.\<close>

definition returned :: "('conn, 'creds) routingClient \<Rightarrow> 'e option \<times> ('conn, 'creds) router \<times> 'resp option \<times> 'w
    \<Rightarrow> ('resp option \<times> 'e option) \<times> ('conn, 'creds) routingClient \<times> 'w" where
  "returned rc res = (case res of (err, r, out, w) \<Rightarrow> ((out, err), rc\<lparr>rc_router := r\<rparr>, w))"

type_synonym ('w, 'ctx, 'conn, 'creds, 'st, 'e, 'md, 'req, 'resp, 'opts) rpc =
  "('w, 'ctx, 'conn, 'st, 'e, 'req, 'resp, 'opts) stub \<Rightarrow> ('w, 'ctx, 'conn, 'creds, 'st, 'e) net
   \<Rightarrow> ('ctx, 'md) grpc_md \<Rightarrow> hash64 \<Rightarrow> ('conn, 'creds) routingClient \<Rightarrow> 'ctx \<Rightarrow> 'req \<Rightarrow> 'opts \<Rightarrow> 'w
   \<Rightarrow> ('resp option \<times> 'e option) \<times> ('conn, 'creds) routingClient \<times> 'w"

definition rc_CreateDatabase :: "('w, 'ctx, 'conn, 'creds, 'st, 'e, 'md, 'req, 'resp, 'opts) rpc" where
  "rc_CreateDatabase S N G xx rc ctx req opts w = returned rc
     (Do N G xx ctx (rc_namespace rc) (closure S N ''CreateDatabase'' req opts) (rc_router rc) None w)"

definition rc_DropDatabase :: "('w, 'ctx, 'conn, 'creds, 'st, 'e, 'md, 'req, 'resp, 'opts) rpc" where
  "rc_DropDatabase S N G xx rc ctx req opts w = returned rc
     (Do N G xx ctx (rc_namespace rc) (closure S N ''DropDatabase'' req opts) (rc_router rc) None w)"

definition rc_AlterDatabase :: "('w, 'ctx, 'conn, 'creds, 'st, 'e, 'md, 'req, 'resp, 'opts) rpc" where
  "rc_AlterDatabase S N G xx rc ctx req opts w = returned rc
     (Do N G xx ctx (rc_namespace rc) (closure S N ''AlterDatabase'' req opts) (rc_router rc) None w)"

definition rc_ListDatabases :: "('w, 'ctx, 'conn, 'creds, 'st, 'e, 'md, 'req, 'resp, 'opts) rpc" where
  "rc_ListDatabases S N G xx rc ctx req opts w = returned rc
     (Do N G xx ctx (rc_namespace rc) (closure S N ''ListDatabases'' req opts) (rc_router rc) None w)"

definition rc_GetDatabaseByName :: "('w, 'ctx, 'conn, 'creds, 'st, 'e, 'md, 'req, 'resp, 'opts) rpc" where
  "rc_GetDatabaseByName S N G xx rc ctx req opts w = returned rc
     (Do N G xx ctx (rc_namespace rc) (closure S N ''GetDatabaseByName'' req opts) (rc_router rc) None w)"

definition rc_GetDatabaseByID :: "('w, 'ctx, 'conn, 'creds, 'st, 'e, 'md, 'req, 'resp, 'opts) rpc" where
  "rc_GetDatabaseByID S N G xx rc ctx req opts w = returned rc
     (Do N G xx ctx (rc_namespace rc) (closure S N ''GetDatabaseByID'' req opts) (rc_router rc) None w)"

definition rc_AddCollection :: "('w, 'ctx, 'conn, 'creds, 'st, 'e, 'md, 'req, 'resp, 'opts) rpc" where
  "rc_AddCollection S N G xx rc ctx req opts w = returned rc
     (Do N G xx ctx (rc_namespace rc) (closure S N ''AddCollection'' req opts) (rc_router rc) None w)"

definition rc_DropCollection :: "('w, 'ctx, 'conn, 'creds, 'st, 'e, 'md, 'req, 'resp, 'opts) rpc" where
  "rc_DropCollection S N G xx rc ctx req opts w = returned rc
     (Do N G xx ctx (rc_namespace rc) (closure S N ''DropCollection'' req opts) (rc_router rc) None w)"

definition rc_RemoveCollection :: "('w, 'ctx, 'conn, 'creds, 'st, 'e, 'md, 'req, 'resp, 'opts) rpc" where
  "rc_RemoveCollection S N G xx rc ctx req opts w = returned rc
     (Do N G xx ctx (rc_namespace rc) (closure S N ''RemoveCollection'' req opts) (rc_router rc) None w)"

definition rc_GetCollectionID :: "('w, 'ctx, 'conn, 'creds, 'st, 'e, 'md, 'req, 'resp, 'opts) rpc" where
  "rc_GetCollectionID S N G xx rc ctx req opts w = returned rc
     (Do N G xx ctx (rc_namespace rc) (closure S N ''GetCollectionID'' req opts) (rc_router rc) None w)"

definition rc_GetCollectionByName :: "('w, 'ctx, 'conn, 'creds, 'st, 'e, 'md, 'req, 'resp, 'opts) rpc" where
  "rc_GetCollectionByName S N G xx rc ctx req opts w = returned rc
     (Do N G xx ctx (rc_namespace rc) (closure S N ''GetCollectionByName'' req opts) (rc_router rc) None w)"

definition rc_GetCollectionByID :: "('w, 'ctx, 'conn, 'creds, 'st, 'e, 'md, 'req, 'resp, 'opts) rpc" where
  "rc_GetCollectionByID S N G xx rc ctx req opts w = returned rc
     (Do N G xx ctx (rc_namespace rc) (closure S N ''GetCollectionByID'' req opts) (rc_router rc) None w)"

definition rc_GetCollectionByIDWithMaxTs :: "('w, 'ctx, 'conn, 'creds, 'st, 'e, 'md, 'req, 'resp, 'opts) rpc" where
  "rc_GetCollectionByIDWithMaxTs S N G xx rc ctx req opts w = returned rc
     (Do N G xx ctx (rc_namespace rc) (closure S N ''GetCollectionByIDWithMaxTs'' req opts) (rc_router rc) None w)"

definition rc_ListCollections :: "('w, 'ctx, 'conn, 'creds, 'st, 'e, 'md, 'req, 'resp, 'opts) rpc" where
  "rc_ListCollections S N G xx rc ctx req opts w = returned rc
     (Do N G xx ctx (rc_namespace rc) (closure S N ''ListCollections'' req opts) (rc_router rc) None w)"

definition rc_ListAllAvailCollections :: "('w, 'ctx, 'conn, 'creds, 'st, 'e, 'md, 'req, 'resp, 'opts) rpc" where
  "rc_ListAllAvailCollections S N G xx rc ctx req opts w = returned rc
     (Do N G xx ctx (rc_namespace rc) (closure S N ''ListAllAvailCollections'' req opts) (rc_router rc) None w)"

definition rc_ListAllAvailPartitions :: "('w, 'ctx, 'conn, 'creds, 'st, 'e, 'md, 'req, 'resp, 'opts) rpc" where
  "rc_ListAllAvailPartitions S N G xx rc ctx req opts w = returned rc
     (Do N G xx ctx (rc_namespace rc) (closure S N ''ListAllAvailPartitions'' req opts) (rc_router rc) None w)"

definition rc_ListCollectionPhysicalChannels :: "('w, 'ctx, 'conn, 'creds, 'st, 'e, 'md, 'req, 'resp, 'opts) rpc" where
  "rc_ListCollectionPhysicalChannels S N G xx rc ctx req opts w = returned rc
     (Do N G xx ctx (rc_namespace rc) (closure S N ''ListCollectionPhysicalChannels'' req opts) (rc_router rc) None w)"

definition rc_GetCollectionVirtualChannels :: "('w, 'ctx, 'conn, 'creds, 'st, 'e, 'md, 'req, 'resp, 'opts) rpc" where
  "rc_GetCollectionVirtualChannels S N G xx rc ctx req opts w = returned rc
     (Do N G xx ctx (rc_namespace rc) (closure S N ''GetCollectionVirtualChannels'' req opts) (rc_router rc) None w)"

definition rc_GetPChannelInfo :: "('w, 'ctx, 'conn, 'creds, 'st, 'e, 'md, 'req, 'resp, 'opts) rpc" where
  "rc_GetPChannelInfo S N G xx rc ctx req opts w = returned rc
     (Do N G xx ctx (rc_namespace rc) (closure S N ''GetPChannelInfo'' req opts) (rc_router rc) None w)"

definition rc_CheckIfCollectionRenamable :: "('w, 'ctx, 'conn, 'creds, 'st, 'e, 'md, 'req, 'resp, 'opts) rpc" where
  "rc_CheckIfCollectionRenamable S N G xx rc ctx req opts w = returned rc
     (Do N G xx ctx (rc_namespace rc) (closure S N ''CheckIfCollectionRenamable'' req opts) (rc_router rc) None w)"

definition rc_BeginTruncateCollection :: "('w, 'ctx, 'conn, 'creds, 'st, 'e, 'md, 'req, 'resp, 'opts) rpc" where
  "rc_BeginTruncateCollection S N G xx rc ctx req opts w = returned rc
     (Do N G xx ctx (rc_namespace rc) (closure S N ''BeginTruncateCollection'' req opts) (rc_router rc) None w)"

definition rc_GetGeneralCount :: "('w, 'ctx, 'conn, 'creds, 'st, 'e, 'md, 'req, 'resp, 'opts) rpc" where
  "rc_GetGeneralCount S N G xx rc ctx req opts w = returned rc
     (Do N G xx ctx (rc_namespace rc) (closure S N ''GetGeneralCount'' req opts) (rc_router rc) None w)"

definition rc_AlterCollection :: "('w, 'ctx, 'conn, 'creds, 'st, 'e, 'md, 'req, 'resp, 'opts) rpc" where
  "rc_AlterCollection S N G xx rc ctx req opts w = returned rc
     (Do N G xx ctx (rc_namespace rc) (closure S N ''AlterCollection'' req opts) (rc_router rc) None w)"

definition rc_TruncateCollection :: "('w, 'ctx, 'conn, 'creds, 'st, 'e, 'md, 'req, 'resp, 'opts) rpc" where
  "rc_TruncateCollection S N G xx rc ctx req opts w = returned rc
     (Do N G xx ctx (rc_namespace rc) (closure S N ''TruncateCollection'' req opts) (rc_router rc) None w)"

definition rc_AddPartition :: "('w, 'ctx, 'conn, 'creds, 'st, 'e, 'md, 'req, 'resp, 'opts) rpc" where
  "rc_AddPartition S N G xx rc ctx req opts w = returned rc
     (Do N G xx ctx (rc_namespace rc) (closure S N ''AddPartition'' req opts) (rc_router rc) None w)"

definition rc_GetPartitionIDByName :: "('w, 'ctx, 'conn, 'creds, 'st, 'e, 'md, 'req, 'resp, 'opts) rpc" where
  "rc_GetPartitionIDByName S N G xx rc ctx req opts w = returned rc
     (Do N G xx ctx (rc_namespace rc) (closure S N ''GetPartitionIDByName'' req opts) (rc_router rc) None w)"

definition rc_DropPartition :: "('w, 'ctx, 'conn, 'creds, 'st, 'e, 'md, 'req, 'resp, 'opts) rpc" where
  "rc_DropPartition S N G xx rc ctx req opts w = returned rc
     (Do N G xx ctx (rc_namespace rc) (closure S N ''DropPartition'' req opts) (rc_router rc) None w)"

definition rc_RemovePartition :: "('w, 'ctx, 'conn, 'creds, 'st, 'e, 'md, 'req, 'resp, 'opts) rpc" where
  "rc_RemovePartition S N G xx rc ctx req opts w = returned rc
     (Do N G xx ctx (rc_namespace rc) (closure S N ''RemovePartition'' req opts) (rc_router rc) None w)"

definition rc_AlterAlias :: "('w, 'ctx, 'conn, 'creds, 'st, 'e, 'md, 'req, 'resp, 'opts) rpc" where
  "rc_AlterAlias S N G xx rc ctx req opts w = returned rc
     (Do N G xx ctx (rc_namespace rc) (closure S N ''AlterAlias'' req opts) (rc_router rc) None w)"

definition rc_DropAlias :: "('w, 'ctx, 'conn, 'creds, 'st, 'e, 'md, 'req, 'resp, 'opts) rpc" where
  "rc_DropAlias S N G xx rc ctx req opts w = returned rc
     (Do N G xx ctx (rc_namespace rc) (closure S N ''DropAlias'' req opts) (rc_router rc) None w)"

definition rc_DescribeAlias :: "('w, 'ctx, 'conn, 'creds, 'st, 'e, 'md, 'req, 'resp, 'opts) rpc" where
  "rc_DescribeAlias S N G xx rc ctx req opts w = returned rc
     (Do N G xx ctx (rc_namespace rc) (closure S N ''DescribeAlias'' req opts) (rc_router rc) None w)"

definition rc_ListAliases :: "('w, 'ctx, 'conn, 'creds, 'st, 'e, 'md, 'req, 'resp, 'opts) rpc" where
  "rc_ListAliases S N G xx rc ctx req opts w = returned rc
     (Do N G xx ctx (rc_namespace rc) (closure S N ''ListAliases'' req opts) (rc_router rc) None w)"

definition rc_IsAlias :: "('w, 'ctx, 'conn, 'creds, 'st, 'e, 'md, 'req, 'resp, 'opts) rpc" where
  "rc_IsAlias S N G xx rc ctx req opts w = returned rc
     (Do N G xx ctx (rc_namespace rc) (closure S N ''IsAlias'' req opts) (rc_router rc) None w)"

definition rc_ListAliasesByID :: "('w, 'ctx, 'conn, 'creds, 'st, 'e, 'md, 'req, 'resp, 'opts) rpc" where
  "rc_ListAliasesByID S N G xx rc ctx req opts w = returned rc
     (Do N G xx ctx (rc_namespace rc) (closure S N ''ListAliasesByID'' req opts) (rc_router rc) None w)"

definition rc_CheckIfAliasCreatable :: "('w, 'ctx, 'conn, 'creds, 'st, 'e, 'md, 'req, 'resp, 'opts) rpc" where
  "rc_CheckIfAliasCreatable S N G xx rc ctx req opts w = returned rc
     (Do N G xx ctx (rc_namespace rc) (closure S N ''CheckIfAliasCreatable'' req opts) (rc_router rc) None w)"

definition rc_CheckIfAliasAlterable :: "('w, 'ctx, 'conn, 'creds, 'st, 'e, 'md, 'req, 'resp, 'opts) rpc" where
  "rc_CheckIfAliasAlterable S N G xx rc ctx req opts w = returned rc
     (Do N G xx ctx (rc_namespace rc) (closure S N ''CheckIfAliasAlterable'' req opts) (rc_router rc) None w)"

definition rc_CheckIfAliasDroppable :: "('w, 'ctx, 'conn, 'creds, 'st, 'e, 'md, 'req, 'resp, 'opts) rpc" where
  "rc_CheckIfAliasDroppable S N G xx rc ctx req opts w = returned rc
     (Do N G xx ctx (rc_namespace rc) (closure S N ''CheckIfAliasDroppable'' req opts) (rc_router rc) None w)"

definition rc_InitCredential :: "('w, 'ctx, 'conn, 'creds, 'st, 'e, 'md, 'req, 'resp, 'opts) rpc" where
  "rc_InitCredential S N G xx rc ctx req opts w = returned rc
     (Do N G xx ctx (rc_namespace rc) (closure S N ''InitCredential'' req opts) (rc_router rc) None w)"

definition rc_AlterCredential :: "('w, 'ctx, 'conn, 'creds, 'st, 'e, 'md, 'req, 'resp, 'opts) rpc" where
  "rc_AlterCredential S N G xx rc ctx req opts w = returned rc
     (Do N G xx ctx (rc_namespace rc) (closure S N ''AlterCredential'' req opts) (rc_router rc) None w)"

definition rc_DeleteCredential :: "('w, 'ctx, 'conn, 'creds, 'st, 'e, 'md, 'req, 'resp, 'opts) rpc" where
  "rc_DeleteCredential S N G xx rc ctx req opts w = returned rc
     (Do N G xx ctx (rc_namespace rc) (closure S N ''DeleteCredential'' req opts) (rc_router rc) None w)"

definition rc_GetCredential :: "('w, 'ctx, 'conn, 'creds, 'st, 'e, 'md, 'req, 'resp, 'opts) rpc" where
  "rc_GetCredential S N G xx rc ctx req opts w = returned rc
     (Do N G xx ctx (rc_namespace rc) (closure S N ''GetCredential'' req opts) (rc_router rc) None w)"

definition rc_ListCredentialUsernames :: "('w, 'ctx, 'conn, 'creds, 'st, 'e, 'md, 'req, 'resp, 'opts) rpc" where
  "rc_ListCredentialUsernames S N G xx rc ctx req opts w = returned rc
     (Do N G xx ctx (rc_namespace rc) (closure S N ''ListCredentialUsernames'' req opts) (rc_router rc) None w)"

definition rc_CheckIfAddCredential :: "('w, 'ctx, 'conn, 'creds, 'st, 'e, 'md, 'req, 'resp, 'opts) rpc" where
  "rc_CheckIfAddCredential S N G xx rc ctx req opts w = returned rc
     (Do N G xx ctx (rc_namespace rc) (closure S N ''CheckIfAddCredential'' req opts) (rc_router rc) None w)"

definition rc_CheckIfUpdateCredential :: "('w, 'ctx, 'conn, 'creds, 'st, 'e, 'md, 'req, 'resp, 'opts) rpc" where
  "rc_CheckIfUpdateCredential S N G xx rc ctx req opts w = returned rc
     (Do N G xx ctx (rc_namespace rc) (closure S N ''CheckIfUpdateCredential'' req opts) (rc_router rc) None w)"

definition rc_CheckIfDeleteCredential :: "('w, 'ctx, 'conn, 'creds, 'st, 'e, 'md, 'req, 'resp, 'opts) rpc" where
  "rc_CheckIfDeleteCredential S N G xx rc ctx req opts w = returned rc
     (Do N G xx ctx (rc_namespace rc) (closure S N ''CheckIfDeleteCredential'' req opts) (rc_router rc) None w)"

definition rc_CreateRole :: "('w, 'ctx, 'conn, 'creds, 'st, 'e, 'md, 'req, 'resp, 'opts) rpc" where
  "rc_CreateRole S N G xx rc ctx req opts w = returned rc
     (Do N G xx ctx (rc_namespace rc) (closure S N ''CreateRole'' req opts) (rc_router rc) None w)"

definition rc_AlterRole :: "('w, 'ctx, 'conn, 'creds, 'st, 'e, 'md, 'req, 'resp, 'opts) rpc" where
  "rc_AlterRole S N G xx rc ctx req opts w = returned rc
     (Do N G xx ctx (rc_namespace rc) (closure S N ''AlterRole'' req opts) (rc_router rc) None w)"

definition rc_DropRole :: "('w, 'ctx, 'conn, 'creds, 'st, 'e, 'md, 'req, 'resp, 'opts) rpc" where
  "rc_DropRole S N G xx rc ctx req opts w = returned rc
     (Do N G xx ctx (rc_namespace rc) (closure S N ''DropRole'' req opts) (rc_router rc) None w)"

definition rc_OperateUserRole :: "('w, 'ctx, 'conn, 'creds, 'st, 'e, 'md, 'req, 'resp, 'opts) rpc" where
  "rc_OperateUserRole S N G xx rc ctx req opts w = returned rc
     (Do N G xx ctx (rc_namespace rc) (closure S N ''OperateUserRole'' req opts) (rc_router rc) None w)"

definition rc_SelectRole :: "('w, 'ctx, 'conn, 'creds, 'st, 'e, 'md, 'req, 'resp, 'opts) rpc" where
  "rc_SelectRole S N G xx rc ctx req opts w = returned rc
     (Do N G xx ctx (rc_namespace rc) (closure S N ''SelectRole'' req opts) (rc_router rc) None w)"

definition rc_SelectUser :: "('w, 'ctx, 'conn, 'creds, 'st, 'e, 'md, 'req, 'resp, 'opts) rpc" where
  "rc_SelectUser S N G xx rc ctx req opts w = returned rc
     (Do N G xx ctx (rc_namespace rc) (closure S N ''SelectUser'' req opts) (rc_router rc) None w)"

definition rc_ListUserRole :: "('w, 'ctx, 'conn, 'creds, 'st, 'e, 'md, 'req, 'resp, 'opts) rpc" where
  "rc_ListUserRole S N G xx rc ctx req opts w = returned rc
     (Do N G xx ctx (rc_namespace rc) (closure S N ''ListUserRole'' req opts) (rc_router rc) None w)"

definition rc_CheckIfCreateRole :: "('w, 'ctx, 'conn, 'creds, 'st, 'e, 'md, 'req, 'resp, 'opts) rpc" where
  "rc_CheckIfCreateRole S N G xx rc ctx req opts w = returned rc
     (Do N G xx ctx (rc_namespace rc) (closure S N ''CheckIfCreateRole'' req opts) (rc_router rc) None w)"

definition rc_CheckIfAlterRole :: "('w, 'ctx, 'conn, 'creds, 'st, 'e, 'md, 'req, 'resp, 'opts) rpc" where
  "rc_CheckIfAlterRole S N G xx rc ctx req opts w = returned rc
     (Do N G xx ctx (rc_namespace rc) (closure S N ''CheckIfAlterRole'' req opts) (rc_router rc) None w)"

definition rc_CheckIfDropRole :: "('w, 'ctx, 'conn, 'creds, 'st, 'e, 'md, 'req, 'resp, 'opts) rpc" where
  "rc_CheckIfDropRole S N G xx rc ctx req opts w = returned rc
     (Do N G xx ctx (rc_namespace rc) (closure S N ''CheckIfDropRole'' req opts) (rc_router rc) None w)"

definition rc_CheckIfOperateUserRole :: "('w, 'ctx, 'conn, 'creds, 'st, 'e, 'md, 'req, 'resp, 'opts) rpc" where
  "rc_CheckIfOperateUserRole S N G xx rc ctx req opts w = returned rc
     (Do N G xx ctx (rc_namespace rc) (closure S N ''CheckIfOperateUserRole'' req opts) (rc_router rc) None w)"

definition rc_OperatePrivilege :: "('w, 'ctx, 'conn, 'creds, 'st, 'e, 'md, 'req, 'resp, 'opts) rpc" where
  "rc_OperatePrivilege S N G xx rc ctx req opts w = returned rc
     (Do N G xx ctx (rc_namespace rc) (closure S N ''OperatePrivilege'' req opts) (rc_router rc) None w)"

definition rc_DropGrant :: "('w, 'ctx, 'conn, 'creds, 'st, 'e, 'md, 'req, 'resp, 'opts) rpc" where
  "rc_DropGrant S N G xx rc ctx req opts w = returned rc
     (Do N G xx ctx (rc_namespace rc) (closure S N ''DropGrant'' req opts) (rc_router rc) None w)"

definition rc_RestoreRBAC :: "('w, 'ctx, 'conn, 'creds, 'st, 'e, 'md, 'req, 'resp, 'opts) rpc" where
  "rc_RestoreRBAC S N G xx rc ctx req opts w = returned rc
     (Do N G xx ctx (rc_namespace rc) (closure S N ''RestoreRBAC'' req opts) (rc_router rc) None w)"

definition rc_SelectGrant :: "('w, 'ctx, 'conn, 'creds, 'st, 'e, 'md, 'req, 'resp, 'opts) rpc" where
  "rc_SelectGrant S N G xx rc ctx req opts w = returned rc
     (Do N G xx ctx (rc_namespace rc) (closure S N ''SelectGrant'' req opts) (rc_router rc) None w)"

definition rc_ListPolicy :: "('w, 'ctx, 'conn, 'creds, 'st, 'e, 'md, 'req, 'resp, 'opts) rpc" where
  "rc_ListPolicy S N G xx rc ctx req opts w = returned rc
     (Do N G xx ctx (rc_namespace rc) (closure S N ''ListPolicy'' req opts) (rc_router rc) None w)"

definition rc_BackupRBAC :: "('w, 'ctx, 'conn, 'creds, 'st, 'e, 'md, 'req, 'resp, 'opts) rpc" where
  "rc_BackupRBAC S N G xx rc ctx req opts w = returned rc
     (Do N G xx ctx (rc_namespace rc) (closure S N ''BackupRBAC'' req opts) (rc_router rc) None w)"

definition rc_CheckIfRBACRestorable :: "('w, 'ctx, 'conn, 'creds, 'st, 'e, 'md, 'req, 'resp, 'opts) rpc" where
  "rc_CheckIfRBACRestorable S N G xx rc ctx req opts w = returned rc
     (Do N G xx ctx (rc_namespace rc) (closure S N ''CheckIfRBACRestorable'' req opts) (rc_router rc) None w)"

definition rc_CreatePrivilegeGroup :: "('w, 'ctx, 'conn, 'creds, 'st, 'e, 'md, 'req, 'resp, 'opts) rpc" where
  "rc_CreatePrivilegeGroup S N G xx rc ctx req opts w = returned rc
     (Do N G xx ctx (rc_namespace rc) (closure S N ''CreatePrivilegeGroup'' req opts) (rc_router rc) None w)"

definition rc_DropPrivilegeGroup :: "('w, 'ctx, 'conn, 'creds, 'st, 'e, 'md, 'req, 'resp, 'opts) rpc" where
  "rc_DropPrivilegeGroup S N G xx rc ctx req opts w = returned rc
     (Do N G xx ctx (rc_namespace rc) (closure S N ''DropPrivilegeGroup'' req opts) (rc_router rc) None w)"

definition rc_OperatePrivilegeGroup :: "('w, 'ctx, 'conn, 'creds, 'st, 'e, 'md, 'req, 'resp, 'opts) rpc" where
  "rc_OperatePrivilegeGroup S N G xx rc ctx req opts w = returned rc
     (Do N G xx ctx (rc_namespace rc) (closure S N ''OperatePrivilegeGroup'' req opts) (rc_router rc) None w)"

definition rc_IsCustomPrivilegeGroup :: "('w, 'ctx, 'conn, 'creds, 'st, 'e, 'md, 'req, 'resp, 'opts) rpc" where
  "rc_IsCustomPrivilegeGroup S N G xx rc ctx req opts w = returned rc
     (Do N G xx ctx (rc_namespace rc) (closure S N ''IsCustomPrivilegeGroup'' req opts) (rc_router rc) None w)"

definition rc_ListPrivilegeGroups :: "('w, 'ctx, 'conn, 'creds, 'st, 'e, 'md, 'req, 'resp, 'opts) rpc" where
  "rc_ListPrivilegeGroups S N G xx rc ctx req opts w = returned rc
     (Do N G xx ctx (rc_namespace rc) (closure S N ''ListPrivilegeGroups'' req opts) (rc_router rc) None w)"

definition rc_GetPrivilegeGroupRoles :: "('w, 'ctx, 'conn, 'creds, 'st, 'e, 'md, 'req, 'resp, 'opts) rpc" where
  "rc_GetPrivilegeGroupRoles S N G xx rc ctx req opts w = returned rc
     (Do N G xx ctx (rc_namespace rc) (closure S N ''GetPrivilegeGroupRoles'' req opts) (rc_router rc) None w)"

definition rc_CheckIfPrivilegeGroupCreatable :: "('w, 'ctx, 'conn, 'creds, 'st, 'e, 'md, 'req, 'resp, 'opts) rpc" where
  "rc_CheckIfPrivilegeGroupCreatable S N G xx rc ctx req opts w = returned rc
     (Do N G xx ctx (rc_namespace rc) (closure S N ''CheckIfPrivilegeGroupCreatable'' req opts) (rc_router rc) None w)"

definition rc_CheckIfPrivilegeGroupAlterable :: "('w, 'ctx, 'conn, 'creds, 'st, 'e, 'md, 'req, 'resp, 'opts) rpc" where
  "rc_CheckIfPrivilegeGroupAlterable S N G xx rc ctx req opts w = returned rc
     (Do N G xx ctx (rc_namespace rc) (closure S N ''CheckIfPrivilegeGroupAlterable'' req opts) (rc_router rc) None w)"

definition rc_CheckIfPrivilegeGroupDropable :: "('w, 'ctx, 'conn, 'creds, 'st, 'e, 'md, 'req, 'resp, 'opts) rpc" where
  "rc_CheckIfPrivilegeGroupDropable S N G xx rc ctx req opts w = returned rc
     (Do N G xx ctx (rc_namespace rc) (closure S N ''CheckIfPrivilegeGroupDropable'' req opts) (rc_router rc) None w)"

definition rc_CheckIfDatabaseCreatable :: "('w, 'ctx, 'conn, 'creds, 'st, 'e, 'md, 'req, 'resp, 'opts) rpc" where
  "rc_CheckIfDatabaseCreatable S N G xx rc ctx req opts w = returned rc
     (Do N G xx ctx (rc_namespace rc) (closure S N ''CheckIfDatabaseCreatable'' req opts) (rc_router rc) None w)"

definition rc_CheckIfDatabaseDroppable :: "('w, 'ctx, 'conn, 'creds, 'st, 'e, 'md, 'req, 'resp, 'opts) rpc" where
  "rc_CheckIfDatabaseDroppable S N G xx rc ctx req opts w = returned rc
     (Do N G xx ctx (rc_namespace rc) (closure S N ''CheckIfDatabaseDroppable'' req opts) (rc_router rc) None w)"

definition rc_AddFileResource :: "('w, 'ctx, 'conn, 'creds, 'st, 'e, 'md, 'req, 'resp, 'opts) rpc" where
  "rc_AddFileResource S N G xx rc ctx req opts w = returned rc
     (Do N G xx ctx (rc_namespace rc) (closure S N ''AddFileResource'' req opts) (rc_router rc) None w)"

definition rc_RemoveFileResource :: "('w, 'ctx, 'conn, 'creds, 'st, 'e, 'md, 'req, 'resp, 'opts) rpc" where
  "rc_RemoveFileResource S N G xx rc ctx req opts w = returned rc
     (Do N G xx ctx (rc_namespace rc) (closure S N ''RemoveFileResource'' req opts) (rc_router rc) None w)"

definition rc_ListFileResource :: "('w, 'ctx, 'conn, 'creds, 'st, 'e, 'md, 'req, 'resp, 'opts) rpc" where
  "rc_ListFileResource S N G xx rc ctx req opts w = returned rc
     (Do N G xx ctx (rc_namespace rc) (closure S N ''ListFileResource'' req opts) (rc_router rc) None w)"

definition rc_IncFileResourceRefCnt :: "('w, 'ctx, 'conn, 'creds, 'st, 'e, 'md, 'req, 'resp, 'opts) rpc" where
  "rc_IncFileResourceRefCnt S N G xx rc ctx req opts w = returned rc
     (DoNonIdempotent N G xx ctx (rc_namespace rc) (closure S N ''IncFileResourceRefCnt'' req opts) (rc_router rc) None w)"

definition rc_DecFileResourceRefCnt :: "('w, 'ctx, 'conn, 'creds, 'st, 'e, 'md, 'req, 'resp, 'opts) rpc" where
  "rc_DecFileResourceRefCnt S N G xx rc ctx req opts w = returned rc
     (DoNonIdempotent N G xx ctx (rc_namespace rc) (closure S N ''DecFileResourceRefCnt'' req opts) (rc_router rc) None w)"

definition rc_RecoverFileResourceRefCnt :: "('w, 'ctx, 'conn, 'creds, 'st, 'e, 'md, 'req, 'resp, 'opts) rpc" where
  "rc_RecoverFileResourceRefCnt S N G xx rc ctx req opts w = returned rc
     (Do N G xx ctx (rc_namespace rc) (closure S N ''RecoverFileResourceRefCnt'' req opts) (rc_router rc) None w)"

definition rc_BulkImport :: "('w, 'ctx, 'conn, 'creds, 'st, 'e, 'md, 'req, 'resp, 'opts) rpc" where
  "rc_BulkImport S N G xx rc ctx req opts w = returned rc
     (Do N G xx ctx (rc_namespace rc) (closure S N ''BulkImport'' req opts) (rc_router rc) None w)"

definition rc_VerifyImport :: "('w, 'ctx, 'conn, 'creds, 'st, 'e, 'md, 'req, 'resp, 'opts) rpc" where
  "rc_VerifyImport S N G xx rc ctx req opts w = returned rc
     (Do N G xx ctx (rc_namespace rc) (closure S N ''VerifyImport'' req opts) (rc_router rc) None w)"

definition rc_GetRouteMap :: "('w, 'ctx, 'conn, 'creds, 'st, 'e, 'md, 'req, 'resp, 'opts) rpc" where
  "rc_GetRouteMap S N G xx rc ctx req opts w = returned rc
     (Do N G xx ctx (rc_namespace rc) (closure S N ''GetRouteMap'' req opts) (rc_router rc) None w)"

definition rc_DeleteNamespace :: "('w, 'ctx, 'conn, 'creds, 'st, 'e, 'md, 'req, 'resp, 'opts) rpc" where
  "rc_DeleteNamespace S N G xx rc ctx req opts w = returned rc
     (Do N G xx ctx (rc_namespace rc) (closure S N ''DeleteNamespace'' req opts) (rc_router rc) None w)"

text \<open>The method set of the interface, by name.\<close>

definition methods :: "(string \<times> ('w, 'ctx, 'conn, 'creds, 'st, 'e, 'md, 'req, 'resp, 'opts) rpc) list" where
  "methods = [
    (''CreateDatabase'', rc_CreateDatabase),
    (''DropDatabase'', rc_DropDatabase),
    (''AlterDatabase'', rc_AlterDatabase),
    (''ListDatabases'', rc_ListDatabases),
    (''GetDatabaseByName'', rc_GetDatabaseByName),
    (''GetDatabaseByID'', rc_GetDatabaseByID),
    (''AddCollection'', rc_AddCollection),
    (''DropCollection'', rc_DropCollection),
    (''RemoveCollection'', rc_RemoveCollection),
    (''GetCollectionID'', rc_GetCollectionID),
    (''GetCollectionByName'', rc_GetCollectionByName),
    (''GetCollectionByID'', rc_GetCollectionByID),
    (''GetCollectionByIDWithMaxTs'', rc_GetCollectionByIDWithMaxTs),
    (''ListCollections'', rc_ListCollections),
    (''ListAllAvailCollections'', rc_ListAllAvailCollections),
    (''ListAllAvailPartitions'', rc_ListAllAvailPartitions),
    (''ListCollectionPhysicalChannels'', rc_ListCollectionPhysicalChannels),
    (''GetCollectionVirtualChannels'', rc_GetCollectionVirtualChannels),
    (''GetPChannelInfo'', rc_GetPChannelInfo),
    (''CheckIfCollectionRenamable'', rc_CheckIfCollectionRenamable),
    (''BeginTruncateCollection'', rc_BeginTruncateCollection),
    (''GetGeneralCount'', rc_GetGeneralCount),
    (''AlterCollection'', rc_AlterCollection),
    (''TruncateCollection'', rc_TruncateCollection),
    (''AddPartition'', rc_AddPartition),
    (''GetPartitionIDByName'', rc_GetPartitionIDByName),
    (''DropPartition'', rc_DropPartition),
    (''RemovePartition'', rc_RemovePartition),
    (''AlterAlias'', rc_AlterAlias),
    (''DropAlias'', rc_DropAlias),
    (''DescribeAlias'', rc_DescribeAlias),
    (''ListAliases'', rc_ListAliases),
    (''IsAlias'', rc_IsAlias),
    (''ListAliasesByID'', rc_ListAliasesByID),
    (''CheckIfAliasCreatable'', rc_CheckIfAliasCreatable),
    (''CheckIfAliasAlterable'', rc_CheckIfAliasAlterable),
    (''CheckIfAliasDroppable'', rc_CheckIfAliasDroppable),
    (''InitCredential'', rc_InitCredential),
    (''AlterCredential'', rc_AlterCredential),
    (''DeleteCredential'', rc_DeleteCredential),
    (''GetCredential'', rc_GetCredential),
    (''ListCredentialUsernames'', rc_ListCredentialUsernames),
    (''CheckIfAddCredential'', rc_CheckIfAddCredential),
    (''CheckIfUpdateCredential'', rc_CheckIfUpdateCredential),
    (''CheckIfDeleteCredential'', rc_CheckIfDeleteCredential),
    (''CreateRole'', rc_CreateRole),
    (''AlterRole'', rc_AlterRole),
    (''DropRole'', rc_DropRole),
    (''OperateUserRole'', rc_OperateUserRole),
    (''SelectRole'', rc_SelectRole),
    (''SelectUser'', rc_SelectUser),
    (''ListUserRole'', rc_ListUserRole),
    (''CheckIfCreateRole'', rc_CheckIfCreateRole),
    (''CheckIfAlterRole'', rc_CheckIfAlterRole),
    (''CheckIfDropRole'', rc_CheckIfDropRole),
    (''CheckIfOperateUserRole'', rc_CheckIfOperateUserRole),
    (''OperatePrivilege'', rc_OperatePrivilege),
    (''DropGrant'', rc_DropGrant),
    (''RestoreRBAC'', rc_RestoreRBAC),
    (''SelectGrant'', rc_SelectGrant),
    (''ListPolicy'', rc_ListPolicy),
    (''BackupRBAC'', rc_BackupRBAC),
    (''CheckIfRBACRestorable'', rc_CheckIfRBACRestorable),
    (''CreatePrivilegeGroup'', rc_CreatePrivilegeGroup),
    (''DropPrivilegeGroup'', rc_DropPrivilegeGroup),
    (''OperatePrivilegeGroup'', rc_OperatePrivilegeGroup),
    (''IsCustomPrivilegeGroup'', rc_IsCustomPrivilegeGroup),
    (''ListPrivilegeGroups'', rc_ListPrivilegeGroups),
    (''GetPrivilegeGroupRoles'', rc_GetPrivilegeGroupRoles),
    (''CheckIfPrivilegeGroupCreatable'', rc_CheckIfPrivilegeGroupCreatable),
    (''CheckIfPrivilegeGroupAlterable'', rc_CheckIfPrivilegeGroupAlterable),
    (''CheckIfPrivilegeGroupDropable'', rc_CheckIfPrivilegeGroupDropable),
    (''CheckIfDatabaseCreatable'', rc_CheckIfDatabaseCreatable),
    (''CheckIfDatabaseDroppable'', rc_CheckIfDatabaseDroppable),
    (''AddFileResource'', rc_AddFileResource),
    (''RemoveFileResource'', rc_RemoveFileResource),
    (''ListFileResource'', rc_ListFileResource),
    (''IncFileResourceRefCnt'', rc_IncFileResourceRefCnt),
    (''DecFileResourceRefCnt'', rc_DecFileResourceRefCnt),
    (''RecoverFileResourceRefCnt'', rc_RecoverFileResourceRefCnt),
    (''BulkImport'', rc_BulkImport),
    (''VerifyImport'', rc_VerifyImport),
    (''GetRouteMap'', rc_GetRouteMap),
    (''DeleteNamespace'', rc_DeleteNamespace)]"

lemmas rc_method_defs =
  rc_CreateDatabase_def rc_DropDatabase_def rc_AlterDatabase_def
  rc_ListDatabases_def rc_GetDatabaseByName_def rc_GetDatabaseByID_def
  rc_AddCollection_def rc_DropCollection_def rc_RemoveCollection_def
  rc_GetCollectionID_def rc_GetCollectionByName_def rc_GetCollectionByID_def
  rc_GetCollectionByIDWithMaxTs_def rc_ListCollections_def rc_ListAllAvailCollections_def
  rc_ListAllAvailPartitions_def rc_ListCollectionPhysicalChannels_def rc_GetCollectionVirtualChannels_def
  rc_GetPChannelInfo_def rc_CheckIfCollectionRenamable_def rc_BeginTruncateCollection_def
  rc_GetGeneralCount_def rc_AlterCollection_def rc_TruncateCollection_def
  rc_AddPartition_def rc_GetPartitionIDByName_def rc_DropPartition_def
  rc_RemovePartition_def rc_AlterAlias_def rc_DropAlias_def
  rc_DescribeAlias_def rc_ListAliases_def rc_IsAlias_def
  rc_ListAliasesByID_def rc_CheckIfAliasCreatable_def rc_CheckIfAliasAlterable_def
  rc_CheckIfAliasDroppable_def rc_InitCredential_def rc_AlterCredential_def
  rc_DeleteCredential_def rc_GetCredential_def rc_ListCredentialUsernames_def
  rc_CheckIfAddCredential_def rc_CheckIfUpdateCredential_def rc_CheckIfDeleteCredential_def
  rc_CreateRole_def rc_AlterRole_def rc_DropRole_def
  rc_OperateUserRole_def rc_SelectRole_def rc_SelectUser_def
  rc_ListUserRole_def rc_CheckIfCreateRole_def rc_CheckIfAlterRole_def
  rc_CheckIfDropRole_def rc_CheckIfOperateUserRole_def rc_OperatePrivilege_def
  rc_DropGrant_def rc_RestoreRBAC_def rc_SelectGrant_def
  rc_ListPolicy_def rc_BackupRBAC_def rc_CheckIfRBACRestorable_def
  rc_CreatePrivilegeGroup_def rc_DropPrivilegeGroup_def rc_OperatePrivilegeGroup_def
  rc_IsCustomPrivilegeGroup_def rc_ListPrivilegeGroups_def rc_GetPrivilegeGroupRoles_def
  rc_CheckIfPrivilegeGroupCreatable_def rc_CheckIfPrivilegeGroupAlterable_def rc_CheckIfPrivilegeGroupDropable_def
  rc_CheckIfDatabaseCreatable_def rc_CheckIfDatabaseDroppable_def rc_AddFileResource_def
  rc_RemoveFileResource_def rc_ListFileResource_def rc_IncFileResourceRefCnt_def
  rc_DecFileResourceRefCnt_def rc_RecoverFileResourceRefCnt_def rc_BulkImport_def
  rc_VerifyImport_def rc_GetRouteMap_def rc_DeleteNamespace_def

subsection \<open>Properties of the client\<close>

definition deltas :: "string set" where
  "deltas = {''IncFileResourceRefCnt'', ''DecFileResourceRefCnt''}"

text \<open>Every method is its namesake's call through the retry loop; only the deltas forgo
  re-sending.\<close>

lemma methods_routed:
  assumes "(name, m) \<in> set methods"
  shows "m S N G xx rc ctx req opts w = returned rc
    (Router_do N G xx ctx (rc_namespace rc) (closure S N name req opts) (name \<notin> deltas) (rc_router rc) None w)"
proof -
  have "list_all (\<lambda>(name, m). m S N G xx rc ctx req opts w = returned rc
    (Router_do N G xx ctx (rc_namespace rc) (closure S N name req opts) (name \<notin> deltas) (rc_router rc) None w)) methods"
    by (simp add: methods_def rc_method_defs Do_def DoNonIdempotent_def deltas_def)
  then show ?thesis using assms by (auto simp: list_all_iff)
qed

text \<open>A stub to run on: node \<open>n2\<close> answers, every other node rejects the call as not its own.\<close>

definition demo_stub :: "(nat, ref_ctx, string, demo_err option, demo_err, string, string, unit) stub" where
  "demo_stub = \<lparr>
     st_call = (\<lambda>name ctx c req opts w. ((Some (if c = ''n2'' then name @ ''!'' @ req else []), None), Suc w)),
     st_GetStatus = (\<lambda>resp. if resp = Some [] then Some NotOwner else None)\<rparr>"

definition demo_rc :: "(string, unit) routingClient" where
  "demo_rc = NewRoutingClient stale_router ''ns''"

abbreviation demo_client_net :: "(nat, ref_ctx, string, unit, demo_err option, demo_err) net" where
  "demo_client_net \<equiv> demo_net [(ShardOf fnv64 ''ns'', ''n2'')] 100"



text \<open>C23: no silent success. When a method returns a nil error, its response is the one of a call
  that had no transport error and whose status carries no error, stamped with the client's
  namespace; a not-owner answer inside the status never counts as success.\<close>

theorem method_success_is_real:
  assumes "(name, m) \<in> set methods" and "m S N G xx rc ctx req opts w = ((out, None), rc', w')"
  shows "\<exists>t c w1. st_call S name (WithTerm G ctx (rc_namespace rc) t) c req opts w1 = ((out, None), w')
    \<and> nt_merr_Error N (st_GetStatus S out) = None"
proof -
  obtain err r' a' w2 where d: "Router_do N G xx ctx (rc_namespace rc) (closure S N name req opts) (name \<notin> deltas) (rc_router rc) None w
      = (err, r', a', w2)" by (metis prod_cases4)
  then have e: "err = None" "a' = out" "w2 = w'" using assms(2) methods_routed [OF assms(1)] by (auto simp: returned_def)
  then obtain t c a0 w1 where "closure S N name req opts (WithTerm G ctx (rc_namespace rc) t) c a0 w1 = (None, out, w')"
    using attempts_success [OF d [unfolded Router_do_def e]] by (auto simp: maxAttempts_def)
  then show ?thesis
    by (auto simp: closure_def callErr_def split: prod.splits if_splits)
qed

theorem method_success_is_real_witness:
  "\<exists>rc' w'. rc_CreateDatabase demo_stub demo_client_net ref_md fnv64 demo_rc ref_ctx0 ''db'' () 0
       = ((Some ''CreateDatabase!db'', None), rc', w')
     \<and> (\<exists>t c w1. st_call demo_stub ''CreateDatabase'' (WithTerm ref_md ref_ctx0 ''ns'' t) c ''db'' () w1 = ((Some ''CreateDatabase!db'', None), w'))"
proof -
  let ?run = "rc_CreateDatabase demo_stub demo_client_net ref_md fnv64 demo_rc ref_ctx0 ''db'' () 0"
  have "fst ?run = (Some ''CreateDatabase!db'', None)"
    by (simp add: rc_CreateDatabase_def demo_rc_def NewRoutingClient_def returned_def Do_def closure_def callErr_def demo_stub_def demo_run)
  then obtain rc' w' where r: "?run = ((Some ''CreateDatabase!db'', None), rc', w')" by (metis prod.collapse)
  have "(''CreateDatabase'', rc_CreateDatabase) \<in> set methods" by (simp add: methods_def)
  note real = method_success_is_real [of "''CreateDatabase''" rc_CreateDatabase, OF this r]
  have "rc_namespace demo_rc = ''ns''" by (simp add: demo_rc_def NewRoutingClient_def)
  then show ?thesis using real r by auto
qed

text \<open>C22: a reference-count delta reaches a server that may apply it at most once per method call:
  of all the stub calls one \<open>Inc\<close> or \<open>Dec\<close> makes, at most one is answered with anything but a
  rejection made before applying it.\<close>

theorem delta_applied_at_most_once:
  assumes "(name, m) \<in> set methods" and "name \<in> {''IncFileResourceRefCnt'', ''DecFileResourceRefCnt''}"
    and "m S N G xx rc ctx req opts w = ((out, err), rc', w')"
  shows "\<exists>log. DoNonIdempotent N G xx ctx (rc_namespace rc) (logged (closure S N name req opts)) (rc_router rc) (None, []) w
        = (err, rc_router rc', (out, log), w')
    \<and> length (filter (\<lambda>e. \<not> (\<exists>x. e = Some x \<and> isRetriableRejection N x)) log) \<le> 1"
proof -
  let ?fn = "closure S N name req opts"
  have na: "(name \<notin> deltas) = False" using assms(2) by (simp add: deltas_def)
  obtain e r' a' log w2 where d: "attempts 4 N G xx ctx (rc_namespace rc) (logged ?fn) False None (rc_router rc) (None, []) w
      = (e, r', (a', log), w2)" by (metis prod_cases4 surj_pair)
  have "Router_do N G xx ctx (rc_namespace rc) ?fn False (rc_router rc) None w = (e, r', a', w2)"
    using attempts_logged [OF d] by (simp add: Router_do_def maxAttempts_def)
  then have "e = err" "r' = rc_router rc'" "a' = out" "w2 = w'"
    using assms(3) methods_routed [OF assms(1)] na by (auto simp: returned_def)
  moreover have "length (filter (\<lambda>e. \<not> (\<exists>x. e = Some x \<and> isRetriableRejection N x)) log) \<le> 1"
    by (rule attempts_once [OF d])
  ultimately show ?thesis using d by (auto simp: DoNonIdempotent_def Router_do_def maxAttempts_def)
qed

theorem delta_applied_at_most_once_witness:
  "\<exists>out err rc' w' log. rc_DecFileResourceRefCnt demo_stub demo_client_net ref_md fnv64 demo_rc ref_ctx0 ''f'' () 0 = ((out, err), rc', w')
     \<and> DoNonIdempotent demo_client_net ref_md fnv64 ref_ctx0 ''ns'' (logged (closure demo_stub demo_client_net ''DecFileResourceRefCnt'' ''f'' ()))
         stale_router (None, []) 0 = (err, rc_router rc', (out, log), w')
     \<and> length (filter (\<lambda>e. \<not> (\<exists>x. e = Some x \<and> isRetriableRejection demo_client_net x)) log) \<le> 1"
proof -
  obtain out err rc' w' where r: "rc_DecFileResourceRefCnt demo_stub demo_client_net ref_md fnv64 demo_rc ref_ctx0 ''f'' () 0 = ((out, err), rc', w')"
    by (metis prod_cases3 surj_pair)
  have rc: "rc_namespace demo_rc = ''ns''" "rc_router demo_rc = stale_router" by (simp_all add: demo_rc_def NewRoutingClient_def)
  have "(''DecFileResourceRefCnt'', rc_DecFileResourceRefCnt) \<in> set methods" by (simp add: methods_def)
  note once = delta_applied_at_most_once [of "''DecFileResourceRefCnt''" rc_DecFileResourceRefCnt, OF this _ r, unfolded rc]
  show ?thesis using once r by blast
qed

end
