(* ===== verification/Migration.thy ===== *)
theory Migration
  imports GoStd "HOL-Library.AList" "HOL-Library.Multiset"
begin

section \<open>Migration: bulk copy and verification (migration/copydiff.go)\<close>

text \<open>
  The key stripping loop, the logical load, the batched copy and the diff. Go maps are association
  lists with distinct keys, updated by \<open>AList.update\<close>; the order in which \<open>range\<close> visits a map is
  the parameter \<open>me_range\<close>. The key-value stores (Milvus's \<open>kv.MetaKv\<close>) are not part of this
  repository: \<open>meta_kv\<close> is the record of the two calls used, and the locale \<open>meta_store\<close> states
  their documented behaviour over a view of the stored keys.
\<close>

subsection \<open>Parameters\<close>

text \<open>\<open>LoadWithPrefix\<close> returns two slices of the same length, here a list of pairs.\<close>

type_synonym gomap = "(string \<times> string) list"

record ('w, 'ctx, 'e) meta_kv =
  mk_LoadWithPrefix :: "'ctx \<Rightarrow> string \<Rightarrow> 'w \<Rightarrow> ('e + gomap) \<times> 'w"
  mk_MultiSave :: "'ctx \<Rightarrow> gomap \<Rightarrow> 'w \<Rightarrow> 'e option \<times> 'w"

record ('w, 'e) mig_env =
  me_WrapErrParameterInvalidMsg :: "string \<Rightarrow> string \<Rightarrow> 'e"
  me_range :: "gomap \<Rightarrow> 'w \<Rightarrow> gomap"

definition multiSaveBatch :: nat where
  "multiSaveBatch = 64"

record Mismatch =
  mm_Key :: string
  mm_Reason :: string

definition reasonMissingInDst :: string where
  "reasonMissingInDst = ''missing-in-dst''"

definition reasonMissingInSrc :: string where
  "reasonMissingInSrc = ''missing-in-src''"

definition reasonValueDiffers :: string where
  "reasonValueDiffers = ''value-differs''"

subsection \<open>Stripping the root path\<close>

lemma Index_drop_bound:
  "strings_Index (drop from s) (c # r) = Some i \<Longrightarrow> from + i + length (c # r) \<le> length s"
proof -
  assume a: "strings_Index (drop from s) (c # r) = Some i"
  have "i + length (c # r) \<le> length s - from" using Index_Some [OF a] by simp
  then show ?thesis by simp
qed

text \<open>The search loop: \<open>from\<close> moves past every occurrence of the needle that is not followed by a
  segment boundary. \<open>None\<close> is the \<open>break\<close>.\<close>

function strip_loop :: "string \<Rightarrow> string \<Rightarrow> nat \<Rightarrow> string option" where
  "strip_loop fullKey root from =
     (case strings_Index (drop from fullKey) (CHR ''/'' # root) of
        None \<Rightarrow> None
      | Some i \<Rightarrow>
          (let idx = from + i; after = idx + length (CHR ''/'' # root)
           in if after = length fullKey \<or> fullKey ! after = CHR ''/'' then Some (drop (idx + 1) fullKey)
              else strip_loop fullKey root (idx + 1)))"
  by pat_completeness auto

termination
  by (relation "measure (\<lambda>(s, r, from). length s - from)") (auto dest: Index_drop_bound)

declare strip_loop.simps [simp del]

definition stripRootPath :: "('w, 'e) mig_env \<Rightarrow> string \<Rightarrow> string \<Rightarrow> 'e + string" where
  "stripRootPath V fullKey root =
     (case strip_loop fullKey root 0 of
        Some logical \<Rightarrow> Inr logical
      | None \<Rightarrow>
          if fullKey = root \<or> strings_HasPrefix fullKey (root @ ''/'') then Inr fullKey
          else Inl (me_WrapErrParameterInvalidMsg V fullKey root))"

subsection \<open>Loading\<close>

fun load_loop :: "('w, 'e) mig_env \<Rightarrow> string \<Rightarrow> gomap \<Rightarrow> gomap \<Rightarrow> 'e + gomap" where
  "load_loop V root [] out = Inr out"
| "load_loop V root ((fk, v) # kvs) out =
     (case stripRootPath V fk root of
        Inl err \<Rightarrow> Inl err
      | Inr logical \<Rightarrow> load_loop V root kvs (AList.update logical v out))"

definition loadLogical :: "('w, 'e) mig_env \<Rightarrow> ('w, 'ctx, 'e) meta_kv \<Rightarrow> 'ctx \<Rightarrow> string \<Rightarrow> 'w \<Rightarrow> ('e + gomap) \<times> 'w" where
  "loadLogical V m ctx root w =
     (case mk_LoadWithPrefix m ctx root w of
        (Inl err, w1) \<Rightarrow> (Inl err, w1)
      | (Inr kvs, w1) \<Rightarrow> (load_loop V root kvs [], w1))"

definition merge_into :: "gomap \<Rightarrow> gomap \<Rightarrow> gomap" where
  "merge_into part out = foldl (\<lambda>o' (k, v). AList.update k v o') out part"

fun LoadLogical_loop :: "('w, 'e) mig_env \<Rightarrow> ('w, 'ctx, 'e) meta_kv \<Rightarrow> 'ctx \<Rightarrow> string list \<Rightarrow> gomap \<Rightarrow> 'w
    \<Rightarrow> ('e + gomap) \<times> 'w" where
  "LoadLogical_loop V m ctx [] out w = (Inr out, w)"
| "LoadLogical_loop V m ctx (root # roots) out w =
     (case loadLogical V m ctx root w of
        (Inl err, w1) \<Rightarrow> (Inl err, w1)
      | (Inr part, w1) \<Rightarrow> LoadLogical_loop V m ctx roots (merge_into (me_range V part w1) out) w1)"

definition LoadLogical :: "('w, 'e) mig_env \<Rightarrow> ('w, 'ctx, 'e) meta_kv \<Rightarrow> 'ctx \<Rightarrow> string list \<Rightarrow> 'w
    \<Rightarrow> ('e + gomap) \<times> 'w" where
  "LoadLogical V m ctx roots w = LoadLogical_loop V m ctx roots [] w"

subsection \<open>Copying\<close>

text \<open>\<open>flush\<close>: the error and the new batch.\<close>

definition flush :: "('w, 'ctx, 'e) meta_kv \<Rightarrow> 'ctx \<Rightarrow> gomap \<Rightarrow> 'w \<Rightarrow> 'e option \<times> gomap \<times> 'w" where
  "flush dst ctx batch w =
     (if length batch = 0 then (None, batch, w)
      else case mk_MultiSave dst ctx batch w of
             (Some err, w1) \<Rightarrow> (Some err, batch, w1)
           | (None, w1) \<Rightarrow> (None, [], w1))"

fun copy_loop :: "('w, 'ctx, 'e) meta_kv \<Rightarrow> 'ctx \<Rightarrow> gomap \<Rightarrow> gomap \<Rightarrow> nat \<Rightarrow> 'w
    \<Rightarrow> 'e option \<times> gomap \<times> nat \<times> 'w" where
  "copy_loop dst ctx [] batch copied w = (None, batch, copied, w)"
| "copy_loop dst ctx ((k, v) # kvs) batch copied w =
     (let batch1 = AList.update k v batch
      in if length batch1 \<ge> multiSaveBatch
         then (case flush dst ctx batch1 w of
                 (Some err, batch2, w1) \<Rightarrow> (Some err, batch2, copied, w1)
               | (None, batch2, w1) \<Rightarrow> copy_loop dst ctx kvs batch2 (copied + 1) w1)
         else copy_loop dst ctx kvs batch1 (copied + 1) w)"

fun CopyPrefixes_loop :: "('w, 'e) mig_env \<Rightarrow> 'ctx \<Rightarrow> ('w, 'ctx, 'e) meta_kv \<Rightarrow> ('w, 'ctx, 'e) meta_kv \<Rightarrow> string list
    \<Rightarrow> nat \<Rightarrow> 'w \<Rightarrow> nat \<times> 'e option \<times> 'w" where
  "CopyPrefixes_loop V ctx src dst [] copied w = (copied, None, w)"
| "CopyPrefixes_loop V ctx src dst (root # roots) copied w =
     (case loadLogical V src ctx root w of
        (Inl err, w1) \<Rightarrow> (copied, Some err, w1)
      | (Inr logical, w1) \<Rightarrow>
          (case copy_loop dst ctx (me_range V logical w1) [] copied w1 of
             (Some err, _, copied1, w2) \<Rightarrow> (copied1, Some err, w2)
           | (None, batch, copied1, w2) \<Rightarrow>
               (case flush dst ctx batch w2 of
                  (Some err, _, w3) \<Rightarrow> (copied1, Some err, w3)
                | (None, _, w3) \<Rightarrow> CopyPrefixes_loop V ctx src dst roots copied1 w3)))"

definition CopyPrefixes :: "('w, 'e) mig_env \<Rightarrow> 'ctx \<Rightarrow> ('w, 'ctx, 'e) meta_kv \<Rightarrow> ('w, 'ctx, 'e) meta_kv \<Rightarrow> string list
    \<Rightarrow> 'w \<Rightarrow> nat \<times> 'e option \<times> 'w" where
  "CopyPrefixes V ctx src dst roots w = CopyPrefixes_loop V ctx src dst roots 0 w"

subsection \<open>Comparing\<close>

text \<open>The two loops over the maps in the order \<open>range\<close> yields them, then the sort by key.\<close>

definition diff_src :: "gomap \<Rightarrow> (string \<rightharpoonup> string) \<Rightarrow> Mismatch list" where
  "diff_src src dst = concat (map (\<lambda>(k, sv).
     (case dst k of None \<Rightarrow> [\<lparr>mm_Key = k, mm_Reason = reasonMissingInDst\<rparr>]
      | Some dv \<Rightarrow> if dv \<noteq> sv then [\<lparr>mm_Key = k, mm_Reason = reasonValueDiffers\<rparr>] else [])) src)"

definition diff_dst :: "gomap \<Rightarrow> (string \<rightharpoonup> string) \<Rightarrow> Mismatch list" where
  "diff_dst dst src = concat (map (\<lambda>(k, _).
     (case src k of None \<Rightarrow> [\<lparr>mm_Key = k, mm_Reason = reasonMissingInSrc\<rparr>] | Some _ \<Rightarrow> [])) dst)"

definition DiffMaps :: "('w, 'e) mig_env \<Rightarrow> gomap \<Rightarrow> gomap \<Rightarrow> 'w \<Rightarrow> Mismatch list" where
  "DiffMaps V src dst w =
     sort_key mm_Key (diff_src (me_range V src w) (map_of dst) @ diff_dst (me_range V dst w) (map_of src))"

definition DiffPrefixes :: "('w, 'e) mig_env \<Rightarrow> 'ctx \<Rightarrow> ('w, 'ctx, 'e) meta_kv \<Rightarrow> ('w, 'ctx, 'e) meta_kv \<Rightarrow> string list
    \<Rightarrow> 'w \<Rightarrow> ('e + Mismatch list) \<times> 'w" where
  "DiffPrefixes V ctx src dst roots w =
     (case LoadLogical V src ctx roots w of
        (Inl err, w1) \<Rightarrow> (Inl err, w1)
      | (Inr srcKV, w1) \<Rightarrow>
          (case LoadLogical V dst ctx roots w1 of
             (Inl err, w2) \<Rightarrow> (Inl err, w2)
           | (Inr dstKV, w2) \<Rightarrow> (Inr (DiffMaps V srcKV dstKV w2), w2)))"

subsection \<open>Where the loop cuts\<close>

text \<open>Position \<open>j\<close> holds a slash followed by \<open>root\<close> up to a segment boundary.\<close>

definition boundary_at :: "string \<Rightarrow> string \<Rightarrow> nat \<Rightarrow> bool" where
  "boundary_at fullKey root j \<longleftrightarrow> strings_HasPrefix (drop j fullKey) (CHR ''/'' # root)
     \<and> (j + Suc (length root) = length fullKey \<or> fullKey ! (j + Suc (length root)) = CHR ''/'')"

lemma boundary_in_range: "boundary_at s root j \<Longrightarrow> j + Suc (length root) \<le> length s"
proof -
  assume "boundary_at s root j"
  then obtain r where "drop j s = (CHR ''/'' # root) @ r" by (auto simp: boundary_at_def HasPrefix_iff)
  then have "length (drop j s) = Suc (length root) + length r" by simp
  then show ?thesis by simp
qed

lemma strip_loop_first:
  "strip_loop s root from = Some k \<Longrightarrow> \<exists>j \<ge> from. boundary_at s root j
     \<and> (\<forall>i. from \<le> i \<and> i < j \<longrightarrow> \<not> boundary_at s root i) \<and> k = drop (Suc j) s"
proof (induction s root "from" rule: strip_loop.induct)
  case (1 s root "from")
  obtain i where i: "strings_Index (drop from s) (CHR ''/'' # root) = Some i"
    using "1.prems" by (auto simp: strip_loop.simps [of s root "from"] split: option.splits)
  note ix = Index_Some [OF i]
  have hit: "strings_HasPrefix (drop (from + i) s) (CHR ''/'' # root)"
    using ix by (simp add: strings_HasPrefix_def add.commute)
  have before: "\<not> boundary_at s root j" if "from \<le> j" "j < from + i" for j
  proof -
    have "\<not> strings_HasPrefix (drop (j - from) (drop from s)) (CHR ''/'' # root)" using ix [THEN conjunct2, THEN conjunct2, rule_format, of "j - from"] that by simp
    then show ?thesis using that by (simp add: boundary_at_def)
  qed
  show ?case
  proof (cases "boundary_at s root (from + i)")
    case True
    then have "k = drop (Suc (from + i)) s"
      using "1.prems" i by (auto simp: strip_loop.simps [of s root "from"] Let_def boundary_at_def)
    then show ?thesis using True before by (intro exI [of _ "from + i"]) auto
  next
    case False
    have "strip_loop s root (from + i + 1) = Some k"
      using "1.prems" i False hit by (auto simp: strip_loop.simps [of s root "from"] Let_def boundary_at_def split: if_splits)
    then obtain j where j: "j \<ge> from + i + 1" "boundary_at s root j"
      "\<forall>l. from + i + 1 \<le> l \<and> l < j \<longrightarrow> \<not> boundary_at s root l" "k = drop (Suc j) s"
      using "1.IH" [OF i refl refl] False hit by (auto simp: boundary_at_def)
    have "\<not> boundary_at s root l" if "from \<le> l" "l < j" for l
      using before [of l] False j(3) that by (cases "l = from + i"; cases "l < from + i") auto
    then show ?thesis using j by (intro exI [of _ j]) auto
  qed
qed

lemma strip_loop_none:
  "strip_loop s root from = None \<Longrightarrow> from \<le> j \<Longrightarrow> \<not> boundary_at s root j"
proof (induction s root "from" arbitrary: j rule: strip_loop.induct)
  case (1 s root "from")
  show ?case
  proof (cases "strings_Index (drop from s) (CHR ''/'' # root)")
    case None
    show ?thesis
    proof
      assume b: "boundary_at s root j"
      then have "j - from \<le> length (drop from s)" using boundary_in_range [OF b] by simp
      then have "\<not> strings_HasPrefix (drop (j - from) (drop from s)) (CHR ''/'' # root)"
        by (rule Index_None [OF None])
      then show False using b "1.prems"(2) by (simp add: boundary_at_def)
    qed
  next
    case (Some i)
    note ix = Index_Some [OF Some]
    have no: "\<not> (from + i + Suc (length root) = length s \<or> s ! (from + i + Suc (length root)) = CHR ''/'')"
      and rec: "strip_loop s root (from + i + 1) = None"
      using "1.prems"(1) Some by (auto simp: strip_loop.simps [of s root "from"] Let_def split: if_splits)
    have later: "\<not> boundary_at s root j" if "from + i + 1 \<le> j"
      using "1.IH" [OF Some refl refl] no rec that by simp
    have "\<not> strings_HasPrefix (drop (j - from) (drop from s)) (CHR ''/'' # root)" if "j < from + i"
      using ix [THEN conjunct2, THEN conjunct2, rule_format, of "j - from"] that "1.prems"(2) by simp
    then show ?thesis using later no "1.prems"(2) by (cases "j < from + i"; cases "j = from + i") (auto simp: boundary_at_def)
  qed
qed

text \<open>So the loop finds the first boundary, if there is one.\<close>

lemma strip_loop_at:
  assumes "boundary_at s root j" "\<forall>i < j. \<not> boundary_at s root i"
  shows "strip_loop s root 0 = Some (drop (Suc j) s)"
proof (cases "strip_loop s root 0")
  case None
  then show ?thesis using strip_loop_none [OF None, of j] assms(1) by simp
next
  case (Some k)
  then obtain j' where "boundary_at s root j'" "\<forall>i. i < j' \<longrightarrow> \<not> boundary_at s root i" "k = drop (Suc j') s"
    using strip_loop_first [OF Some] by auto
  then have "j' = j" using assms by (metis linorder_neqE_nat)
  then show ?thesis using Some \<open>k = drop (Suc j') s\<close> by simp
qed

lemma boundary_suffix:
  assumes "boundary_at s root j"
  shows "drop (Suc j) s = root \<or> strings_HasPrefix (drop (Suc j) s) (root @ ''/'')"
proof -
  obtain r where r: "drop j s = CHR ''/'' # root @ r" using assms by (auto simp: boundary_at_def HasPrefix_iff)
  then have d: "drop (Suc j) s = root @ r" by (metis drop_Suc list.sel(3) tl_drop)
  have len: "length s = j + Suc (length root) + length r"
    using arg_cong [OF r, of length] boundary_in_range [OF assms] by simp
  show ?thesis
  proof (cases r)
    case Nil
    then show ?thesis using d by simp
  next
    case (Cons c r')
    have "s ! (j + Suc (length root)) = drop j s ! Suc (length root)"
      using len by (simp add: nth_drop)
    also have "\<dots> = c" using r Cons by (simp add: nth_append)
    finally have "c = CHR ''/''" using assms Cons len by (auto simp: boundary_at_def)
    then show ?thesis using d Cons by (simp add: HasPrefix_iff)
  qed
qed

lemma stripRootPath_root:
  assumes "stripRootPath V s root = Inr k"
  shows "(k = root \<or> strings_HasPrefix k (root @ ''/'')) \<and> (\<exists>p. s = p @ k \<and> (p = [] \<or> last p = CHR ''/''))"
proof (cases "strip_loop s root 0")
  case None
  then show ?thesis using assms by (auto simp: stripRootPath_def split: if_splits intro: exI [of _ "[]"])
next
  case (Some k')
  then obtain j where j: "boundary_at s root j" "k = drop (Suc j) s"
    using strip_loop_first [OF Some] assms by (auto simp: stripRootPath_def)
  have "j < length s" using boundary_in_range [OF j(1)] by simp
  moreover have "s ! j = CHR ''/''"
    using j(1) \<open>j < length s\<close> by (auto simp: boundary_at_def HasPrefix_iff Cons_nth_drop_Suc [symmetric])
  ultimately have "last (take (Suc j) s) = CHR ''/''" by (simp add: take_Suc_conv_app_nth)
  moreover have "s = take (Suc j) s @ k" using j(2) by simp
  ultimately show ?thesis using boundary_suffix [OF j(1)] j(2) by blast
qed

text \<open>A root of one segment that is no segment of the store's root path is found where the root
  path ends.\<close>

lemma boundary_segment:
  assumes "CHR ''/'' \<notin> set root" "boundary_at (rp @ CHR ''/'' # l) root j" "j < length rp"
  shows "root \<in> set (path_split rp)"
proof -
  let ?s = "rp @ CHR ''/'' # l"
  obtain r where r: "drop j ?s = CHR ''/'' # root @ r" using assms(2) by (auto simp: boundary_at_def HasPrefix_iff)
  then have rest: "drop j rp @ CHR ''/'' # l = CHR ''/'' # root @ r" using assms(3) by simp
  then obtain q where q: "drop j rp = CHR ''/'' # q" "q @ CHR ''/'' # l = root @ r"
    using assms(3) by (cases "drop j rp") auto
  from q(2) obtain us where us: "q = root @ us \<and> us @ CHR ''/'' # l = r \<or> q @ us = root \<and> CHR ''/'' # l = us @ r"
    by (auto simp: append_eq_append_conv2)
  have fits: "q = root @ us" "us @ CHR ''/'' # l = r"
  proof -
    have False if "q @ us = root" "CHR ''/'' # l = us @ r" "us \<noteq> []"
      using that assms(1) by (cases us) auto
    then show "q = root @ us" "us @ CHR ''/'' # l = r" using us by (cases "us = []"; auto)+
  qed
  have rp: "rp = take j rp @ CHR ''/'' # root @ us" using q(1) fits(1) by (metis append_take_drop_id)
  have len: "length (take j rp) = j" using assms(3) by simp
  have "us = [] \<or> hd us = CHR ''/''"
  proof (cases us)
    case (Cons c us')
    have "?s ! (j + Suc (length root)) = c"
      using rp Cons len by (metis (no_types, lifting) append.assoc append_Cons length_append list.size(4) nth_append_length One_nat_def add.right_neutral add_Suc_right)
    moreover have "j + Suc (length root) \<noteq> length ?s"
      using arg_cong [OF rp, of length] len Cons by simp
    ultimately show ?thesis using assms(2) Cons by (simp add: boundary_at_def)
  qed simp
  then have "path_split (root @ us) = [root] \<or> (\<exists>us'. path_split (root @ us) = [root] @ path_split us')"
    using path_split_plain [OF assms(1)] path_split_append [of root] by (cases us) auto
  then show ?thesis using path_split_append [of "take j rp" "root @ us"] rp by auto
qed

lemma boundary_after_rp:
  assumes "l = root \<or> strings_HasPrefix l (root @ ''/'')"
  shows "boundary_at (rp @ CHR ''/'' # l) root (length rp)"
  using assms by (auto simp: boundary_at_def HasPrefix_iff nth_append)

lemma stripRoot_back:
  assumes "CHR ''/'' \<notin> set root" and "root \<notin> set (path_split rp)"
    and "logical = root \<or> strings_HasPrefix logical (root @ ''/'')"
  shows "stripRootPath V (rp @ CHR ''/'' # logical) root = Inr logical"
proof -
  have "\<not> boundary_at (rp @ CHR ''/'' # logical) root i" if "i < length rp" for i
    using boundary_segment [OF assms(1)] assms(2) that by blast
  then have "strip_loop (rp @ CHR ''/'' # logical) root 0 = Some (drop (Suc (length rp)) (rp @ CHR ''/'' # logical))"
    using boundary_after_rp [OF assms(3)] by (intro strip_loop_at) auto
  then show ?thesis by (simp add: stripRootPath_def)
qed

subsection \<open>Loading, copying and comparing as maps\<close>

lemma update_map_of: "map_of (AList.update k v al) = (map_of al)(k \<mapsto> v)"
  by (rule update_conv')

lemma merge_into_map_of:
  "distinct (map fst part) \<Longrightarrow> map_of (merge_into part out) = map_of out ++ map_of part"
proof -
  have "map_of (merge_into part out) = map_copy part (map_of out)"
    unfolding merge_into_def map_copy_def
    by (induction part arbitrary: out) (auto simp: update_map_of)
  then show "distinct (map fst part) \<Longrightarrow> ?thesis" by (simp add: map_copy_map_of)
qed

lemma merge_into_distinct: "distinct (map fst out) \<Longrightarrow> distinct (map fst (merge_into part out))"
  unfolding merge_into_def by (induction part arbitrary: out) (auto simp: distinct_update)

text \<open>The full key under which an instance with root path \<open>rp\<close> stores a logical key.\<close>

definition full_key :: "string \<Rightarrow> string \<Rightarrow> string" where
  "full_key rp k = (if rp = [] then k else rp @ ''/'' @ k)"

text \<open>When every full key strips to the logical key it stands for, a load is the map of the logical
  keys.\<close>

lemma load_loop_entries:
  assumes "\<forall>kv \<in> set es. stripRootPath V (full_key rp (fst kv)) root = Inr (fst kv)"
  shows "load_loop V root (map (\<lambda>(k, v). (full_key rp k, v)) es) out = Inr (merge_into es out)"
  using assms by (induction es arbitrary: out) (auto simp: merge_into_def)

text \<open>Go visits every entry of a map exactly once.\<close>

definition range_ok :: "('w, 'e) mig_env \<Rightarrow> bool" where
  "range_ok V \<longleftrightarrow> (\<forall>m w. mset (me_range V m w) = mset m)"

lemma range_facts:
  assumes "range_ok V" "distinct (map fst m)"
  shows "map_of (me_range V m w) = map_of m" "distinct (map fst (me_range V m w))" "length (me_range V m w) = length m"
proof -
  have m: "mset (me_range V m w) = mset m" using assms(1) by (simp add: range_ok_def)
  then show "length (me_range V m w) = length m" by (rule mset_eq_length)
  have "mset (map fst (me_range V m w)) = mset (map fst m)" using m by simp
  then show d: "distinct (map fst (me_range V m w))" using assms(2) by (metis mset_eq_imp_distinct_iff)
  show "map_of (me_range V m w) = map_of m"
    by (rule map_of_inject_set [OF d assms(2), THEN iffD2]) (use m in \<open>metis mset_eq_setD\<close>)
qed

definition keys_under :: "string list \<Rightarrow> string set" where
  "keys_under roots = {k. \<exists>root \<in> set roots. strings_HasPrefix k root}"

text \<open>Every key under the roots can be told apart from the store's root path.\<close>

definition addressable :: "('w, 'e) mig_env \<Rightarrow> string \<Rightarrow> string list \<Rightarrow> (string \<rightharpoonup> string) \<Rightarrow> bool" where
  "addressable V rp roots m \<longleftrightarrow> (\<forall>root \<in> set roots. \<forall>k \<in> dom m. strings_HasPrefix k root \<longrightarrow>
     stripRootPath V (full_key rp k) root = Inr k)"

locale meta_store =
  fixes K :: "('w, 'ctx, 'e) meta_kv"
    and rp :: string
    and contents :: "'w \<Rightarrow> (string \<rightharpoonup> string)"
  assumes load: "mk_LoadWithPrefix K ctx p w = (Inr kvs, w') \<Longrightarrow> \<exists>es. distinct (map fst es)
        \<and> kvs = map (\<lambda>(k, v). (full_key rp k, v)) es \<and> map_of es = contents w |` {k. strings_HasPrefix k p}"
    and load_keeps: "mk_LoadWithPrefix K ctx p w = (r, w') \<Longrightarrow> contents w' = contents w"
    and save: "distinct (map fst b) \<Longrightarrow> mk_MultiSave K ctx b w = (None, w') \<Longrightarrow> contents w' = contents w ++ map_of b"
begin

lemma loadLogical_contents:
  assumes "addressable V rp [root] (contents w)" "loadLogical V K ctx root w = (Inr part, w')"
  shows "map_of part = contents w |` {k. strings_HasPrefix k root} \<and> distinct (map fst part) \<and> contents w' = contents w"
proof -
  obtain kvs where l: "mk_LoadWithPrefix K ctx root w = (Inr kvs, w')" "load_loop V root kvs [] = Inr part"
    using assms(2) by (auto simp: loadLogical_def split: prod.splits sum.splits)
  obtain es where es: "distinct (map fst es)" "kvs = map (\<lambda>(k, v). (full_key rp k, v)) es"
    "map_of es = contents w |` {k. strings_HasPrefix k root}" using load [OF l(1)] by blast
  have "\<forall>kv \<in> set es. stripRootPath V (full_key rp (fst kv)) root = Inr (fst kv)"
  proof
    fix kv assume kv: "kv \<in> set es"
    then have "map_of es (fst kv) = Some (snd kv)" using es(1) by (simp add: map_of_is_SomeI)
    then have "contents w (fst kv) = Some (snd kv)" "strings_HasPrefix (fst kv) root"
      using es(3) by (auto simp: restrict_map_def split: if_splits)
    then show "stripRootPath V (full_key rp (fst kv)) root = Inr (fst kv)"
      using assms(1) by (auto simp: addressable_def)
  qed
  then have "part = merge_into es []" using load_loop_entries l(2) es(2) by fastforce
  then show ?thesis
    using merge_into_map_of [OF es(1), of "[]"] merge_into_distinct [of "[]" es] es(3) load_keeps [OF l(1)] by simp
qed

lemma LoadLogical_contents:
  assumes "range_ok V" "addressable V rp roots (contents w)" "LoadLogical_loop V K ctx roots out w = (Inr m, w')"
    "distinct (map fst out)"
  shows "map_of m = map_of out ++ (contents w |` keys_under roots) \<and> distinct (map fst m) \<and> contents w' = contents w"
  using assms(2-)
proof (induction roots arbitrary: out w)
  case Nil
  then show ?case by (simp add: keys_under_def restrict_map_def map_add_def fun_eq_iff)
next
  case (Cons root roots)
  obtain part w1 where p: "loadLogical V K ctx root w = (Inr part, w1)"
    "LoadLogical_loop V K ctx roots (merge_into (me_range V part w1) out) w1 = (Inr m, w')"
    using Cons.prems(2) by (auto split: prod.splits sum.splits)
  have "addressable V rp [root] (contents w)" using Cons.prems(1) by (simp add: addressable_def)
  note l = loadLogical_contents [OF this p(1)]
  note rg = range_facts [OF assms(1), of part w1]
  have "addressable V rp roots (contents w1)" using Cons.prems(1) l by (simp add: addressable_def)
  note ih = Cons.IH [OF this p(2) merge_into_distinct [OF Cons.prems(3)]]
  have "map_of (merge_into (me_range V part w1) out) = map_of out ++ (contents w |` {k. strings_HasPrefix k root})"
    using merge_into_map_of rg l by simp
  then have "map_of m = (map_of out ++ (contents w |` {k. strings_HasPrefix k root})) ++ (contents w |` keys_under roots)"
    using ih l by simp
  also have "\<dots> = map_of out ++ (contents w |` keys_under (root # roots))"
    by (auto simp: keys_under_def restrict_map_def map_add_def fun_eq_iff split: option.split)
  finally show ?case using ih l by simp
qed

end

text \<open>A source and a destination in one world: loads change neither, saving to the destination
  does not touch the source.\<close>

locale migration_pair = src: meta_store S rs cs + dst: meta_store D rd cd
  for S D :: "('w, 'ctx, 'e) meta_kv" and rs rd :: string and cs cd :: "'w \<Rightarrow> (string \<rightharpoonup> string)" +
  assumes src_load_frame: "mk_LoadWithPrefix S ctx p w = (r, w') \<Longrightarrow> cd w' = cd w"
    and dst_load_frame: "mk_LoadWithPrefix D ctx p w = (r, w') \<Longrightarrow> cs w' = cs w"
    and save_frame: "mk_MultiSave D ctx b w = (s, w') \<Longrightarrow> cs w' = cs w"
begin

lemma src_loads_frame: "LoadLogical_loop V S ctx roots out w = (r, w') \<Longrightarrow> cd w' = cd w"
proof (induction roots arbitrary: out w)
  case Nil
  then show ?case by simp
next
  case (Cons root roots)
  obtain p w1 where l: "loadLogical V S ctx root w = (p, w1)" by force
  have "cd w1 = cd w" using l src_load_frame by (auto simp: loadLogical_def split: prod.splits sum.splits)
  then show ?case using Cons.IH Cons.prems l by (cases p) auto
qed

lemma flush_facts:
  assumes "flush D ctx batch w = (err, batch', w')" "distinct (map fst batch)"
  shows "cs w' = cs w \<and> (err = None \<longrightarrow> batch' = [] \<and> cd w' = cd w ++ map_of batch)"
  using assms(1) dst.save [OF assms(2), of ctx w w'] save_frame [of ctx batch w]
  by (auto simp: flush_def split: if_splits prod.splits option.splits)

lemma copy_loop_facts:
  assumes "copy_loop D ctx kvs batch copied w = (None, batch', copied', w')"
    and "distinct (map fst (batch @ kvs))"
  shows "copied' = copied + length kvs \<and> cs w' = cs w \<and> cd w' ++ map_of batch' = cd w ++ map_of batch ++ map_of kvs
    \<and> distinct (map fst batch')"
  using assms
proof (induction kvs arbitrary: batch copied w)
  case Nil
  then show ?case by simp
next
  case (Cons kv kvs)
  obtain k v where kv: "kv = (k, v)" by force
  have k: "k \<notin> fst ` set batch" "map_of kvs k = None" using Cons.prems(2) kv by (auto simp: map_of_eq_None_iff)
  have m1: "map_of (AList.update k v batch) = (map_of batch)(k \<mapsto> v)" by (rule update_map_of)
  have d1: "distinct (map fst (AList.update k v batch @ kvs))"
    using Cons.prems(2) kv k by (auto simp: distinct_update dom_update update_keys)
  have acc: "cd w ++ map_of (AList.update k v batch) ++ map_of kvs = cd w ++ map_of batch ++ map_of (kv # kvs)"
    using k(2) by (auto simp: kv m1 map_add_def fun_eq_iff split: option.split)
  show ?case
  proof (cases "length (AList.update k v batch) \<ge> multiSaveBatch")
    case False
    then have "copy_loop D ctx kvs (AList.update k v batch) (copied + 1) w = (None, batch', copied', w')"
      using Cons.prems(1) kv by (simp add: Let_def)
    note ih = Cons.IH [OF this d1]
    with acc have "cd w' ++ map_of batch' = cd w ++ map_of batch ++ map_of (kv # kvs)" by metis
    then show ?thesis using ih by (simp del: map_of.simps)
  next
    case True
    have d2: "distinct (map fst (AList.update k v batch))" using d1 by simp
    obtain w1 where f: "flush D ctx (AList.update k v batch) w = (None, [], w1)"
      and r: "copy_loop D ctx kvs [] (copied + 1) w1 = (None, batch', copied', w')"
      using Cons.prems(1) True kv flush_facts [OF _ d2, of ctx w]
      by (auto simp: Let_def split: prod.splits option.splits)
    have "distinct (map fst ([] @ kvs))" using Cons.prems(2) by simp
    note ih = Cons.IH [OF r this]
    have "cd w1 ++ map_of [] ++ map_of kvs = cd w ++ map_of batch ++ map_of (kv # kvs)"
      using flush_facts [OF f d2] acc by simp
    with ih have "cd w' ++ map_of batch' = cd w ++ map_of batch ++ map_of (kv # kvs)" by metis
    then show ?thesis using ih flush_facts [OF f d2] by (simp del: map_of.simps)
  qed
qed

lemma CopyPrefixes_loop_facts:
  assumes "range_ok V" "addressable V rs roots (cs w)"
    and "CopyPrefixes_loop V ctx S D roots copied w = (copied', None, w')"
  shows "cs w' = cs w \<and> cd w' = cd w ++ (cs w |` keys_under roots)
    \<and> copied' = copied + (\<Sum>root \<leftarrow> roots. card (dom (cs w |` keys_under [root])))"
  using assms(2-)
proof (induction roots arbitrary: copied w)
  case Nil
  then show ?case by (simp add: keys_under_def restrict_map_def map_add_def fun_eq_iff)
next
  case (Cons root roots)
  obtain part w1 batch copied1 w2 w3 where
    l: "loadLogical V S ctx root w = (Inr part, w1)"
    and c: "copy_loop D ctx (me_range V part w1) [] copied w1 = (None, batch, copied1, w2)"
    and f: "fst (flush D ctx batch w2) = None" "snd (snd (flush D ctx batch w2)) = w3"
    and r: "CopyPrefixes_loop V ctx S D roots copied1 w3 = (copied', None, w')"
    using Cons.prems(2) by (auto split: prod.splits sum.splits option.splits)
  have a: "addressable V rs [root] (cs w)" using Cons.prems(1) by (simp add: addressable_def)
  note lc = src.loadLogical_contents [OF a l]
  have cdl: "cd w1 = cd w" using l src_load_frame by (auto simp: loadLogical_def split: prod.splits sum.splits)
  note rg = range_facts [OF assms(1), of part w1]
  have "distinct (map fst ([] @ me_range V part w1))" using rg lc by simp
  note cf = copy_loop_facts [OF c this]
  have ff: "cs w3 = cs w2" "cd w3 = cd w2 ++ map_of batch"
    using flush_facts [of ctx batch w2 None "fst (snd (flush D ctx batch w2))" w3] f cf by (auto simp: prod_eq_iff)
  have cs3: "cs w3 = cs w" using cf ff lc by simp
  have cd3: "cd w3 = cd w ++ (cs w |` {k. strings_HasPrefix k root})"
    using cf ff cdl rg lc by simp
  have "addressable V rs roots (cs w3)" using Cons.prems(1) cs3 by (simp add: addressable_def)
  note ih = Cons.IH [OF this r]
  have "length part = card (dom (map_of part))"
    using lc distinct_card [of "map fst part"] by (metis dom_map_of_conv_image_fst length_map list.set_map)
  then have n: "copied1 = copied + card (dom (cs w |` keys_under [root]))"
    using cf rg lc by (simp add: keys_under_def)
  have "cd w ++ (cs w |` {k. strings_HasPrefix k root}) ++ (cs w |` keys_under roots) = cd w ++ (cs w |` keys_under (root # roots))"
    by (auto simp: keys_under_def restrict_map_def map_add_def fun_eq_iff split: option.split)
  then show ?case using ih cs3 cd3 n by simp
qed

end

subsection \<open>The diff\<close>

text \<open>What the entry of one key contributes.\<close>

definition mismatch_of :: "(string \<rightharpoonup> string) \<Rightarrow> (string \<rightharpoonup> string) \<Rightarrow> string \<Rightarrow> string option" where
  "mismatch_of src dst k = (case (src k, dst k) of
       (Some sv, None) \<Rightarrow> Some reasonMissingInDst
     | (Some sv, Some dv) \<Rightarrow> if dv \<noteq> sv then Some reasonValueDiffers else None
     | (None, Some dv) \<Rightarrow> Some reasonMissingInSrc
     | (None, None) \<Rightarrow> None)"

lemma mismatch_of_None: "mismatch_of s d k = None \<longleftrightarrow> s k = d k"
  by (auto simp: mismatch_of_def split: option.splits)

lemma concat_keys:
  assumes "\<forall>x \<in> set xs. map f (g x) = [] \<or> map f (g x) = [h x]" "distinct (map h xs)"
  shows "distinct (map f (concat (map g xs))) \<and> set (map f (concat (map g xs))) \<subseteq> h ` set xs"
  using assms
proof (induction xs)
  case Nil
  then show ?case by simp
next
  case (Cons x xs)
  have ih: "distinct (map f (concat (map g xs)))" "set (map f (concat (map g xs))) \<subseteq> h ` set xs"
    using Cons by simp_all
  have e: "map f (concat (map g (x # xs))) = map f (g x) @ map f (concat (map g xs))" by simp
  have "map f (g x) = [] \<or> map f (g x) = [h x]" using Cons.prems(1) by simp
  moreover have "h x \<notin> h ` set xs" using Cons.prems(2) by simp
  ultimately show ?case unfolding e using ih by (elim disjE; simp del: set_map) (auto simp del: set_map)
qed

lemma diff_src_keys: "distinct (map fst s) \<Longrightarrow> distinct (map mm_Key (diff_src s d)) \<and> set (map mm_Key (diff_src s d)) \<subseteq> fst ` set s"
  unfolding diff_src_def by (rule concat_keys) (auto split: option.splits)

lemma diff_dst_keys: "distinct (map fst t) \<Longrightarrow>
    distinct (map mm_Key (diff_dst t s)) \<and> set (map mm_Key (diff_dst t s)) \<subseteq> fst ` set t \<inter> {k. s k = None}"
proof -
  assume d: "distinct (map fst t)"
  have "distinct (map mm_Key (diff_dst t s)) \<and> set (map mm_Key (diff_dst t s)) \<subseteq> fst ` set t"
    unfolding diff_dst_def by (rule concat_keys [OF _ d]) (auto split: option.splits)
  moreover have "set (map mm_Key (diff_dst t s)) \<subseteq> {k. s k = None}"
    by (auto simp: diff_dst_def split: option.splits)
  ultimately show ?thesis by blast
qed

lemma diff_src_mem:
  assumes "distinct (map fst s)"
  shows "m \<in> set (diff_src s d) \<longleftrightarrow> map_of s (mm_Key m) \<noteq> None \<and> mismatch_of (map_of s) d (mm_Key m) = Some (mm_Reason m)"
proof -
  have "m \<in> set (diff_src s d) \<longleftrightarrow> (\<exists>v. (mm_Key m, v) \<in> set s
      \<and> (case d (mm_Key m) of None \<Rightarrow> mm_Reason m = reasonMissingInDst
         | Some dv \<Rightarrow> dv \<noteq> v \<and> mm_Reason m = reasonValueDiffers))"
    by (cases m) (fastforce simp: diff_src_def split: option.splits if_splits)
  also have "\<dots> \<longleftrightarrow> (\<exists>v. map_of s (mm_Key m) = Some v
      \<and> (case d (mm_Key m) of None \<Rightarrow> mm_Reason m = reasonMissingInDst
         | Some dv \<Rightarrow> dv \<noteq> v \<and> mm_Reason m = reasonValueDiffers))"
    using assms by simp
  finally show ?thesis by (auto simp: mismatch_of_def split: option.splits)
qed

lemma diff_dst_mem:
  assumes "distinct (map fst t)"
  shows "m \<in> set (diff_dst t s) \<longleftrightarrow> s (mm_Key m) = None \<and> mismatch_of s (map_of t) (mm_Key m) = Some (mm_Reason m)"
proof -
  have "m \<in> set (diff_dst t s) \<longleftrightarrow> (\<exists>v. (mm_Key m, v) \<in> set t) \<and> s (mm_Key m) = None \<and> mm_Reason m = reasonMissingInSrc"
    by (cases m) (fastforce simp: diff_dst_def split: option.splits)
  also have "(\<exists>v. (mm_Key m, v) \<in> set t) \<longleftrightarrow> map_of t (mm_Key m) \<noteq> None"
    by (force simp: map_of_eq_None_iff)
  finally show ?thesis by (auto simp: mismatch_of_def split: option.splits)
qed

lemma DiffMaps_facts:
  assumes "range_ok V" "distinct (map fst s)" "distinct (map fst t)"
  shows "(m \<in> set (DiffMaps V s t w) \<longleftrightarrow> mismatch_of (map_of s) (map_of t) (mm_Key m) = Some (mm_Reason m))
    \<and> sorted (map mm_Key (DiffMaps V s t w)) \<and> distinct (map mm_Key (DiffMaps V s t w))"
proof -
  let ?s = "me_range V s w" and ?t = "me_range V t w"
  note rs = range_facts [OF assms(1,2), of w] and rt = range_facts [OF assms(1,3), of w]
  let ?ds = "diff_src ?s (map_of t)" and ?dt = "diff_dst ?t (map_of s)"
  have "set (map mm_Key ?ds) \<subseteq> dom (map_of s)" "set (map mm_Key ?dt) \<subseteq> {k. map_of s k = None}"
    using diff_src_keys [OF rs(2), of "map_of t"] diff_dst_keys [OF rt(2), of "map_of s"] rs(1)
    by (auto simp: dom_map_of_conv_image_fst [symmetric] simp del: set_map)
  moreover have "dom (map_of s) \<inter> {k. map_of s k = None} = {}" by auto
  ultimately have "set (map mm_Key ?ds) \<inter> set (map mm_Key ?dt) = {}" by blast
  then have d: "distinct (map mm_Key (?ds @ ?dt))"
    using diff_src_keys [OF rs(2), of "map_of t"] diff_dst_keys [OF rt(2), of "map_of s"] by simp
  have "mset (map mm_Key (DiffMaps V s t w)) = mset (map mm_Key (?ds @ ?dt))" by (simp add: DiffMaps_def)
  then have "distinct (map mm_Key (DiffMaps V s t w))" using d by (metis mset_eq_imp_distinct_iff)
  moreover have "m \<in> set (DiffMaps V s t w) \<longleftrightarrow> mismatch_of (map_of s) (map_of t) (mm_Key m) = Some (mm_Reason m)"
    using diff_src_mem [OF rs(2), of m "map_of t"] diff_dst_mem [OF rt(2), of m "map_of s"] rs(1) rt(1)
    by (auto simp: DiffMaps_def)
  ultimately show ?thesis by (simp add: DiffMaps_def)
qed

subsection \<open>Stores to run on\<close>

text \<open>Two in-memory stores in one world; \<open>broken\<close> makes every save fail.\<close>

type_synonym ref_world = "gomap \<times> gomap"

definition ref_load :: "string \<Rightarrow> gomap \<Rightarrow> string \<Rightarrow> gomap" where
  "ref_load rp al p = map (\<lambda>(k, v). (full_key rp k, v)) (filter (\<lambda>(k, v). strings_HasPrefix k p) (AList.clearjunk al))"

definition ref_src :: "string \<Rightarrow> (ref_world, unit, string) meta_kv" where
  "ref_src rp = \<lparr>mk_LoadWithPrefix = (\<lambda>_ p w. (Inr (ref_load rp (fst w) p), w)),
     mk_MultiSave = (\<lambda>_ b w. (None, (merge_into b (fst w), snd w)))\<rparr>"

definition ref_dst :: "string \<Rightarrow> bool \<Rightarrow> (ref_world, unit, string) meta_kv" where
  "ref_dst rp broken = \<lparr>mk_LoadWithPrefix = (\<lambda>_ p w. (Inr (ref_load rp (snd w) p), w)),
     mk_MultiSave = (\<lambda>_ b w. if broken then (Some ''txn failed'', w) else (None, (fst w, merge_into b (snd w))))\<rparr>"

definition ref_env :: "(ref_world, string) mig_env" where
  "ref_env = \<lparr>me_WrapErrParameterInvalidMsg = (\<lambda>k r. k), me_range = (\<lambda>m _. m)\<rparr>"

lemma map_of_filter_key: "map_of (filter (\<lambda>(k, v). P k) al) = map_of al |` {k. P k}"
  by (induction al) (auto simp: restrict_map_def fun_eq_iff)

lemma merge_into_any: "map_of (merge_into b m) = map_of m ++ map_of (rev b)"
  unfolding merge_into_def
  by (induction b arbitrary: m) (auto simp: update_map_of map_add_def fun_eq_iff split: option.split)

lemma ref_load_law:
  "\<exists>es. distinct (map fst es) \<and> ref_load rp al p = map (\<lambda>(k, v). (full_key rp k, v)) es
     \<and> map_of es = map_of al |` {k. strings_HasPrefix k p}"
  unfolding ref_load_def
  by (rule exI [of _ "filter (\<lambda>(k, v). strings_HasPrefix k p) (AList.clearjunk al)"])
     (auto simp: map_of_filter_key map_of_clearjunk distinct_map_filter)

interpretation refpair: migration_pair "ref_src rs" "ref_dst rd broken" rs rd "\<lambda>w. map_of (fst w)" "\<lambda>w. map_of (snd w)"
  for rs rd broken
proof unfold_locales
  fix ctx p w kvs w'
  show "mk_LoadWithPrefix (ref_src rs) ctx p w = (Inr kvs, w') \<Longrightarrow> \<exists>es. distinct (map fst es)
        \<and> kvs = map (\<lambda>(k, v). (full_key rs k, v)) es \<and> map_of es = map_of (fst w) |` {k. strings_HasPrefix k p}"
    using ref_load_law [of rs "fst w" p] by (auto simp: ref_src_def)
  show "mk_LoadWithPrefix (ref_dst rd broken) ctx p w = (Inr kvs, w') \<Longrightarrow> \<exists>es. distinct (map fst es)
        \<and> kvs = map (\<lambda>(k, v). (full_key rd k, v)) es \<and> map_of es = map_of (snd w) |` {k. strings_HasPrefix k p}"
    using ref_load_law [of rd "snd w" p] by (auto simp: ref_dst_def)
qed (auto simp: ref_src_def ref_dst_def merge_into_map_of split: if_splits)

lemma ref_env_range [simp]: "range_ok ref_env"
  by (simp add: range_ok_def ref_env_def)

lemma length_update: "length (AList.update k v al) \<le> Suc (length al)"
  by (induction al) auto

lemma copy_loop_bounded:
  assumes "length batch < 64" "\<And>b u. length b \<le> 64 \<Longrightarrow> flush D1 ctx b u = flush D2 ctx b u"
  shows "copy_loop D1 ctx kvs batch n w = copy_loop D2 ctx kvs batch n w
    \<and> (\<forall>b n' w'. copy_loop D2 ctx kvs batch n w = (None, b, n', w') \<longrightarrow> length b \<le> 64)"
  using assms(1)
proof (induction kvs arbitrary: batch n w)
  case Nil
  then show ?case by simp
next
  case (Cons kv kvs)
  obtain k v where kv: "kv = (k, v)" by force
  let ?b = "AList.update k v batch"
  have b: "length ?b \<le> 64" using length_update [of k v batch] Cons.prems by simp
  show ?case
  proof (cases "length ?b \<ge> 64")
    case True
    obtain err b2 w1 where f: "flush D2 ctx ?b w = (err, b2, w1)" by (metis prod_cases3)
    have "b2 = []" if "err = None" using f that by (auto simp: flush_def split: if_splits prod.splits option.splits)
    then show ?thesis
      using True Cons.IH [of "[]" "n + 1" w1] assms(2) [OF b, of w] f
      by (cases err) (simp_all add: kv multiSaveBatch_def Let_def)
  next
    case False
    then show ?thesis using Cons.IH [of ?b "n + 1" w] by (simp add: kv multiSaveBatch_def Let_def)
  qed
qed

subsection \<open>Properties of the migration\<close>

text \<open>C33: where a key is cut. The logical key starts right after the first slash that is followed
  by the root up to a segment boundary; without such a slash the whole key is taken if it is the
  root or continues it with a slash, and everything else is the error.\<close>

theorem stripRootPath_exact:
  "stripRootPath V s root =
     (if \<exists>j. boundary_at s root j then Inr (drop (Suc (LEAST j. boundary_at s root j)) s)
      else if s = root \<or> strings_HasPrefix s (root @ ''/'') then Inr s
      else Inl (me_WrapErrParameterInvalidMsg V s root))"
proof (cases "\<exists>j. boundary_at s root j")
  case True
  let ?j = "LEAST j. boundary_at s root j"
  have "boundary_at s root ?j" using True by (rule LeastI_ex)
  moreover have "\<forall>i < ?j. \<not> boundary_at s root i" using not_less_Least by blast
  ultimately have "strip_loop s root 0 = Some (drop (Suc ?j) s)" by (rule strip_loop_at)
  then show ?thesis using True by (simp add: stripRootPath_def)
next
  case False
  then have "strip_loop s root 0 = None" using strip_loop_first by (metis option.exhaust)
  then show ?thesis using False by (auto simp: stripRootPath_def)
qed

text \<open>C0: no key is cut inside a segment. A logical key is the root or continues it with a slash,
  and it is a suffix of the full key that starts at the beginning or right after a slash.\<close>

theorem stripRootPath_sound:
  assumes "stripRootPath V s root = Inr k"
  shows "(k = root \<or> strings_HasPrefix k (root @ ''/'')) \<and> (\<exists>p. s = p @ k \<and> (p = [] \<or> last p = CHR ''/''))"
  by (rule stripRootPath_root [OF assms])

theorem stripRootPath_sound_witness:
  "\<exists>p. ''a/kv-store/kv/foo'' = p @ ''kv/foo'' \<and> (p = [] \<or> last p = CHR ''/'')"
proof -
  have "stripRootPath ref_env ''a/kv-store/kv/foo'' ''kv'' = Inr ''kv/foo''" by code_simp
  from stripRootPath_sound [OF this] show ?thesis by blast
qed

text \<open>C14: stripping undoes storing. For a root of one segment and a store whose root path has no
  segment equal to it, the full key of every logical key under the root is cut back to it.\<close>

theorem stripRootPath_roundtrip:
  assumes "CHR ''/'' \<notin> set root" and "root \<notin> set (path_split rp)"
    and "logical = root \<or> strings_HasPrefix logical (root @ ''/'')"
  shows "stripRootPath V (rp @ ''/'' @ logical) root = Inr logical"
  using stripRoot_back [OF assms] by simp

theorem stripRootPath_roundtrip_witness:
  "stripRootPath ref_env (''by-dev/kv-store'' @ ''/'' @ ''kv/a/kv/b'') ''kv'' = Inr ''kv/a/kv/b''"
  by (rule stripRootPath_roundtrip) (simp_all add: strings_HasPrefix_def)



definition demo_world :: ref_world where
  "demo_world = ([(''kv/a'', ''1''), (''kv/b'', ''2''), (''meta/x'', ''3'')], [(''kv/a'', ''0'')])"

lemma demo_addressable:
  assumes "dom m \<subseteq> {''kv/a'', ''kv/b'', ''meta/x''}" "rp \<in> {''by-dev'', ''pool''}"
  shows "addressable ref_env rp [''kv''] m"
proof -
  have "stripRootPath ref_env (full_key rp k) ''kv'' = Inr k" if "k \<in> {''kv/a'', ''kv/b'', ''meta/x''}" "strings_HasPrefix k ''kv''" for k
  proof -
    have "k = ''kv/a'' \<or> k = ''kv/b''" using that by (auto simp: strings_HasPrefix_def)
    moreover have "\<not> ''kv'' \<in> set (path_split rp)" "rp \<noteq> []" using assms(2) by auto
    ultimately show ?thesis
      using stripRoot_back [of "''kv''" rp k ref_env] by (auto simp: full_key_def strings_HasPrefix_def)
  qed
  then show ?thesis using assms(1) by (auto simp: addressable_def)
qed




text \<open>C34: batches are bounded. A copy only ever saves batches of 1 to 64 entries: two destinations
  that agree on those cannot be told apart by it.\<close>

theorem CopyPrefixes_batches:
  assumes "\<forall>b w. 0 < length b \<and> length b \<le> 64 \<longrightarrow> mk_MultiSave D1 ctx b w = mk_MultiSave D2 ctx b w"
  shows "CopyPrefixes V ctx S D1 roots w = CopyPrefixes V ctx S D2 roots w"
proof -
  have fl: "flush D1 ctx b u = flush D2 ctx b u" if "length b \<le> 64" for b u
    using assms that by (simp add: flush_def)
  have "CopyPrefixes_loop V ctx S D1 roots copied u = CopyPrefixes_loop V ctx S D2 roots copied u" for copied u
  proof (induction roots arbitrary: copied u)
    case (Cons root roots)
    have "copy_loop D1 ctx kvs [] n u = copy_loop D2 ctx kvs [] n u" for kvs n u
      by (rule copy_loop_bounded [THEN conjunct1]) (simp_all add: fl)
    moreover have "length b \<le> 64" if "copy_loop D2 ctx kvs [] n u = (None, b, n', u')" for kvs n u b n' u'
      using copy_loop_bounded [of "[]" D1 ctx D2 kvs n u] fl that by auto
    ultimately show ?case using fl Cons.IH by (auto split: prod.split sum.split option.split)
  qed simp
  then show ?thesis by (simp add: CopyPrefixes_def)
qed

theorem CopyPrefixes_batches_witness:
  "CopyPrefixes ref_env () (ref_src ''by-dev'') (ref_dst ''pool'' False) [''kv''] demo_world
   = CopyPrefixes ref_env () (ref_src ''by-dev'') ((ref_dst ''pool'' False)\<lparr>mk_MultiSave :=
       (\<lambda>ctx b w. if length b > 64 then (Some ''too large'', w) else mk_MultiSave (ref_dst ''pool'' False) ctx b w)\<rparr>) [''kv''] demo_world"
  by (rule CopyPrefixes_batches) simp

text \<open>C20: the diff is exact. A key is reported, with the reason that applies, exactly when the two
  maps differ at it; the report is sorted by key and has no key twice, and it is empty exactly when
  the maps are equal.\<close>

theorem DiffMaps_exact:
  assumes "range_ok V" and "distinct (map fst src)" and "distinct (map fst dst)"
  shows "(\<forall>m. m \<in> set (DiffMaps V src dst w) \<longleftrightarrow>
        (mm_Reason m = ''missing-in-dst'' \<and> map_of src (mm_Key m) \<noteq> None \<and> map_of dst (mm_Key m) = None)
      \<or> (mm_Reason m = ''missing-in-src'' \<and> map_of src (mm_Key m) = None \<and> map_of dst (mm_Key m) \<noteq> None)
      \<or> (mm_Reason m = ''value-differs'' \<and> map_of src (mm_Key m) \<noteq> None \<and> map_of dst (mm_Key m) \<noteq> None
           \<and> map_of src (mm_Key m) \<noteq> map_of dst (mm_Key m)))
    \<and> sorted (map mm_Key (DiffMaps V src dst w)) \<and> distinct (map mm_Key (DiffMaps V src dst w))
    \<and> (DiffMaps V src dst w = [] \<longleftrightarrow> map_of src = map_of dst)"
proof -
  note f = DiffMaps_facts [OF assms]
  have empty: "DiffMaps V src dst w = [] \<longleftrightarrow> map_of src = map_of dst"
  proof
    assume "DiffMaps V src dst w = []"
    then have "mismatch_of (map_of src) (map_of dst) k = None" for k
      using f [of "\<lparr>mm_Key = k, mm_Reason = r\<rparr>" w for r] by (metis Mismatch.select_convs empty_iff empty_set not_None_eq)
    then show "map_of src = map_of dst"
      by (auto simp: mismatch_of_None)
  next
    assume "map_of src = map_of dst"
    then have "mismatch_of (map_of src) (map_of dst) k = None" for k by (simp add: mismatch_of_None)
    then have "m \<notin> set (DiffMaps V src dst w)" for m using f by simp
    then show "DiffMaps V src dst w = []" by (cases "DiffMaps V src dst w") auto
  qed
  have "mismatch_of (map_of src) (map_of dst) k = Some r \<longleftrightarrow>
        (r = ''missing-in-dst'' \<and> map_of src k \<noteq> None \<and> map_of dst k = None)
      \<or> (r = ''missing-in-src'' \<and> map_of src k = None \<and> map_of dst k \<noteq> None)
      \<or> (r = ''value-differs'' \<and> map_of src k \<noteq> None \<and> map_of dst k \<noteq> None \<and> map_of src k \<noteq> map_of dst k)" for k r
    by (auto simp: mismatch_of_def reasonMissingInDst_def reasonMissingInSrc_def reasonValueDiffers_def split: option.splits)
  then show ?thesis using f empty by simp
qed

theorem DiffMaps_exact_witness:
  "DiffMaps ref_env [(''b'', ''1''), (''a'', ''2'')] [(''a'', ''3''), (''c'', ''4'')] ([], [])
     = [\<lparr>mm_Key = ''a'', mm_Reason = ''value-differs''\<rparr>, \<lparr>mm_Key = ''b'', mm_Reason = ''missing-in-dst''\<rparr>,
        \<lparr>mm_Key = ''c'', mm_Reason = ''missing-in-src''\<rparr>]
   \<and> DiffMaps ref_env [(''a'', ''1'')] [(''a'', ''1'')] ([], []) = []"
proof
  show "DiffMaps ref_env [(''a'', ''1'')] [(''a'', ''1'')] ([], []) = []"
    using DiffMaps_exact [OF ref_env_range, of "[(''a'', ''1'')]" "[(''a'', ''1'')]" "([], [])"] by simp
qed code_simp


end
