(* ===== verification/Spec2Isabelle.thy ===== *)
theory Spec2Isabelle
  imports Cluster RoutingClient Migration
begin

text \<open>Verification library for the catalog service's control plane.\<close>

end
